theory Spec2Isabelle
  imports Complex_Main "HOL-Library.AList"
begin

section \<open>The TF-IDF artifact builder of \<^verbatim>\<open>train_tfidf_recommender.py\<close>\<close>

text \<open>
  The script reads the rows of the drugs table, composes one text per drug, tokenizes it,
  computes smoothed inverse document frequencies, weights and L2-normalizes each document
  and writes three artifacts. Conventions of the embedding:
  \<^item> a Python \<^verbatim>\<open>str\<close> is a HOL \<open>string\<close>; a \<open>char\<close> stands for the code point of the
    same number, so the strings covered are those over U+0000..U+00FF;
  \<^item> a Python \<^verbatim>\<open>float\<close> is a \<open>real\<close>: \<^verbatim>\<open>math.log\<close> is \<open>ln\<close>, \<^verbatim>\<open>math.sqrt\<close> is
    \<open>sqrt\<close>, and rounding is not modelled;
  \<^item> a \<^verbatim>\<open>dict\<close> or \<^verbatim>\<open>Counter\<close> is an association list in insertion order with distinct
    keys, read as a mapping through \<open>map_of\<close>;
  \<^item> the order in which a Python \<^verbatim>\<open>set\<close> of strings is iterated depends on the hash seed
    of the process, and the UTC clock is outside the program: both are parameters.
\<close>

subsection \<open>Built-in string operations\<close>

text \<open>\<^verbatim>\<open>str.lower\<close> on code points below 256: A-Z and the Latin-1 capitals move up by 32.\<close>

definition lower_char :: "char \<Rightarrow> char" where
  "lower_char c =
     (let n = (of_char c :: nat)
      in if (65 \<le> n \<and> n \<le> 90) \<or> (192 \<le> n \<and> n \<le> 222 \<and> n \<noteq> 215)
         then char_of (n + 32) else c)"

definition lower :: "string \<Rightarrow> string" where
  "lower s = map lower_char s"

text \<open>\<^verbatim>\<open>str.isspace\<close> on code points below 256, the characters \<^verbatim>\<open>str.strip()\<close> removes.\<close>

definition is_space :: "char \<Rightarrow> bool" where
  "is_space c \<longleftrightarrow>
     (let n = (of_char c :: nat)
      in (9 \<le> n \<and> n \<le> 13) \<or> (28 \<le> n \<and> n \<le> 32) \<or> n = 133 \<or> n = 160)"

definition strip :: "string \<Rightarrow> string" where
  "strip s = rev (dropWhile is_space (rev (dropWhile is_space s)))"

text \<open>\<^verbatim>\<open>sep.join(parts)\<close>.\<close>

fun join :: "string \<Rightarrow> string list \<Rightarrow> string" where
  "join sep [] = []"
| "join sep [p] = p"
| "join sep (p # q # ps) = p @ sep @ join sep (q # ps)"

subsection \<open>Tokenizer\<close>

text \<open>The character class \<^verbatim>\<open>[a-z]\<close> of \<^verbatim>\<open>TOKEN_RE\<close>.\<close>

definition is_az :: "char \<Rightarrow> bool" where
  "is_az c \<longleftrightarrow> 97 \<le> (of_char c :: nat) \<and> (of_char c :: nat) \<le> 122"

text \<open>
  \<^verbatim>\<open>TOKEN_RE.findall\<close> for the pattern \<^verbatim>\<open>[a-z]+\<close>: scanning from the left, a
  position where the pattern does not match is passed over; where it matches, the greedy
  match is emitted and the scan goes on behind it.
\<close>

function findall :: "string \<Rightarrow> string list" where
  "findall [] = []"
| "findall (c # cs) =
     (if is_az c then (c # takeWhile is_az cs) # findall (dropWhile is_az cs)
      else findall cs)"
  by pat_completeness auto
termination
  by (relation "measure length") (auto simp: length_dropWhile_le le_imp_less_Suc)

definition tokenize :: "string \<Rightarrow> string list" where
  "tokenize text = findall (lower text)"

subsection \<open>Rows of the drugs table and the corpus\<close>

text \<open>A row of the \<^verbatim>\<open>Drug\<close> model: every text column is a string or \<^verbatim>\<open>None\<close>.\<close>

record drug =
  name :: "string option"
  description :: "string option"
  side_effects :: "string option"
  therapeutic_class :: "string option"
  action_class :: "string option"
  chemical_class :: "string option"
  substitutes :: "string option"
  habit_forming :: "string option"

text \<open>\<^verbatim>\<open>x or ""\<close>: \<^verbatim>\<open>None\<close> and the empty string are both falsy.\<close>

definition or_empty :: "string option \<Rightarrow> string" where
  "or_empty x = (case x of None \<Rightarrow> [] | Some s \<Rightarrow> s)"

definition normalize :: "string option \<Rightarrow> string" where
  "normalize text = (case text of None \<Rightarrow> [] | Some t \<Rightarrow> if t = [] then [] else lower t)"

definition build_corpus_row :: "drug \<Rightarrow> string \<times> string" where
  "build_corpus_row d =
     (let parts = [or_empty (name d), or_empty (description d), or_empty (side_effects d),
                   or_empty (therapeutic_class d), or_empty (action_class d),
                   or_empty (chemical_class d), or_empty (substitutes d),
                   or_empty (habit_forming d)];
          joined = join '' '' (filter (\<lambda>p. p \<noteq> []) parts)
      in (strip (or_empty (name d)), normalize (Some joined)))"

text \<open>The three variables the corpus loop of \<^verbatim>\<open>main\<close> updates.\<close>

record corpus_state =
  corpus :: "string list"
  names :: "string list"
  seen :: "string set"

definition corpus_step :: "drug \<Rightarrow> corpus_state \<Rightarrow> corpus_state" where
  "corpus_step d st =
     (let (nm, text) = build_corpus_row d
      in if nm = [] then st
         else let key = strip (lower nm)
              in if key \<in> seen st then st
                 else let st' = st\<lparr>seen := insert key (seen st)\<rparr>
                      in if strip text = [] then st'
                         else st'\<lparr>names := names st' @ [nm], corpus := corpus st' @ [text]\<rparr>)"

definition build_corpus :: "drug list \<Rightarrow> corpus_state" where
  "build_corpus drugs = fold corpus_step drugs \<lparr>corpus = [], names = [], seen = {}\<rparr>"

subsection \<open>Document frequencies and IDF\<close>

type_synonym 'v dict = "(string \<times> 'v) list"

text \<open>
  \<^verbatim>\<open>Counter.update(iterable)\<close>: each element read adds one to its count; a new key goes
  to the end of the dictionary. \<^verbatim>\<open>Counter(toks)\<close> is the update of the empty counter.
\<close>

definition counter_update :: "string list \<Rightarrow> nat dict \<Rightarrow> nat dict" where
  "counter_update elems cnt =
     fold (\<lambda>e c. AList.update e (case map_of c e of None \<Rightarrow> 1 | Some n \<Rightarrow> n + 1) c) elems cnt"

definition Counter :: "string list \<Rightarrow> nat dict" where
  "Counter toks = counter_update toks []"

text \<open>
  An admissible iteration order of \<^verbatim>\<open>set(toks)\<close>: every distinct token once, in some order.
\<close>

definition set_order :: "(string list \<Rightarrow> string list) \<Rightarrow> bool" where
  "set_order iter \<longleftrightarrow> (\<forall>toks. distinct (iter toks) \<and> set (iter toks) = set toks)"

text \<open>One round of the document-frequency loop, on the pair \<^verbatim>\<open>(df, tokenized_docs)\<close>.\<close>

definition df_step ::
  "(string list \<Rightarrow> string list) \<Rightarrow> string \<Rightarrow> nat dict \<times> string list list
     \<Rightarrow> nat dict \<times> string list list" where
  "df_step iter doc = (\<lambda>(df, tokenized_docs).
     let toks = tokenize doc
     in (counter_update (iter toks) df, tokenized_docs @ [toks]))"

definition document_frequencies ::
  "(string list \<Rightarrow> string list) \<Rightarrow> string list \<Rightarrow> nat dict \<times> string list list" where
  "document_frequencies iter docs = fold (df_step iter) docs ([], [])"

definition idf_table :: "nat \<Rightarrow> nat dict \<Rightarrow> real dict" where
  "idf_table N df =
     fold (\<lambda>(term, c) idf. AList.update term (1 + ln (real (N + 1) / real (c + 1))) idf) df []"

subsection \<open>Document vectors\<close>

definition raw_weights :: "real dict \<Rightarrow> string list \<Rightarrow> real dict" where
  "raw_weights idf toks =
     fold (\<lambda>(term, f) weights.
             case map_of idf term of
               None \<Rightarrow> weights
             | Some i \<Rightarrow> AList.update term ((1 + ln (1 + real f)) * i) weights)
          (Counter toks) []"

definition l2_norm :: "real dict \<Rightarrow> real" where
  "l2_norm weights = sqrt (sum_list (map (\<lambda>(t, v). v * v) weights))"

text \<open>\<^verbatim>\<open>norm = math.sqrt(...) or 1.0\<close>: a zero norm is replaced by one.\<close>

definition norm_or_one :: "real dict \<Rightarrow> real" where
  "norm_or_one weights = (if l2_norm weights = 0 then 1 else l2_norm weights)"

definition l2_normalize :: "real dict \<Rightarrow> real dict" where
  "l2_normalize weights = (let norm = norm_or_one weights in map (\<lambda>(t, v). (t, v / norm)) weights)"

definition weigh_document :: "real dict \<Rightarrow> string list \<Rightarrow> real dict" where
  "weigh_document idf toks = l2_normalize (raw_weights idf toks)"

definition build_tfidf ::
  "real dict \<Rightarrow> string list list \<Rightarrow> string list \<Rightarrow> (string \<times> real dict) list" where
  "build_tfidf idf tokenized_docs nms =
     map (\<lambda>(toks, nm). (nm, weigh_document idf toks)) (zip tokenized_docs nms)"

subsection \<open>Artifacts and the whole run\<close>

record meta =
  built_at :: string
  num_docs :: nat
  num_terms :: nat
  meta_notes :: string
  source :: string
  script :: string

text \<open>The three artifact files; \<open>None\<close> is a file that has not been written.\<close>

record artifacts =
  vocab_pkl :: "real dict option"
  docs_pkl :: "(string \<times> real dict) list option"
  meta_json :: "meta option"

datatype error = RuntimeError string

text \<open>What a run takes from outside the program.\<close>

record env =
  set_iter :: "string list \<Rightarrow> string list"
  utcnow :: string
  this_file :: string

definition main :: "env \<Rightarrow> drug list \<Rightarrow> artifacts \<Rightarrow> (error + unit) \<times> artifacts" where
  "main e drugs fs =
     (if drugs = []
      then (Inl (RuntimeError ''No rows found in drugs table. Ingest drugs first.''), fs)
      else let st = build_corpus drugs;
               N = length (corpus st)
           in if N = 0
              then (Inl (RuntimeError
                      ''All drug entries were empty after cleaning; nothing to train on.''), fs)
              else let (df, tokenized_docs) = document_frequencies (set_iter e) (corpus st);
                       idf = idf_table N df;
                       docs_tfidf = build_tfidf idf tokenized_docs (names st);
                       fs1 = fs\<lparr>vocab_pkl := Some idf\<rparr>;
                       fs2 = fs1\<lparr>docs_pkl := Some docs_tfidf\<rparr>;
                       fs3 = fs2\<lparr>meta_json := Some
                               \<lparr>built_at = utcnow e @ ''Z'', num_docs = N,
                                num_terms = length idf,
                                meta_notes = ''Lightweight TF-IDF recommender artifacts'',
                                source = ''PostgreSQL: drugs table'',
                                script = this_file e\<rparr>\<rparr>
                   in (Inr (), fs3))"

section \<open>Notions the properties are stated with\<close>

subsection \<open>Maximal runs of letters\<close>

text \<open>
  \<open>weave gaps toks\<close> is the text \<open>g\<^sub>0 t\<^sub>1 g\<^sub>1 \<dots> t\<^sub>n g\<^sub>n\<close>. The tokens \<open>toks\<close> are the maximal
  runs of letters of a text \<open>s\<close>, in order, when \<open>s\<close> is such a weave in which every token
  is a non-empty run of \<^verbatim>\<open>[a-z]\<close>, no gap holds a letter of \<^verbatim>\<open>[a-z]\<close>, and a gap between
  two tokens is not empty.
\<close>

fun weave :: "string list \<Rightarrow> string list \<Rightarrow> string" where
  "weave (g # gs) (t # ts) = g @ t @ weave gs ts"
| "weave gs [] = concat gs"
| "weave [] ts = concat ts"

definition separated :: "string list \<Rightarrow> string list \<Rightarrow> string \<Rightarrow> bool" where
  "separated gaps toks s \<longleftrightarrow>
     length gaps = Suc (length toks) \<and> weave gaps toks = s \<and>
     (\<forall>g\<in>set gaps. \<forall>c\<in>set g. \<not> is_az c) \<and>
     (\<forall>i. 0 < i \<and> i < length toks \<longrightarrow> gaps ! i \<noteq> [])"

definition maximal_runs :: "string list \<Rightarrow> string \<Rightarrow> bool" where
  "maximal_runs toks s \<longleftrightarrow>
     (\<forall>t\<in>set toks. t \<noteq> [] \<and> (\<forall>c\<in>set t. is_az c)) \<and> (\<exists>gaps. separated gaps toks s)"

subsection \<open>Which rows reach the corpus\<close>


definition row_text :: "drug \<Rightarrow> string" where
  "row_text d = snd (build_corpus_row d)"






subsection \<open>Document frequency\<close>

text \<open>The number of documents that contain the term at least once.\<close>

definition doc_freq :: "string list \<Rightarrow> string \<Rightarrow> nat" where
  "doc_freq docs term = length (filter (\<lambda>doc. term \<in> set (tokenize doc)) docs)"

subsection \<open>Example inputs\<close>

definition no_fields :: drug where
  "no_fields = \<lparr>name = None, description = None, side_effects = None,
     therapeutic_class = None, action_class = None, chemical_class = None,
     substitutes = None, habit_forming = None\<rparr>"

definition drug_A :: drug where
  "drug_A = no_fields\<lparr>name := Some ''A'', description := Some ''fever pain''\<rparr>"

definition drug_B :: drug where
  "drug_B = no_fields\<lparr>name := Some ''B'', description := Some ''fever cough''\<rparr>"

definition drug_C :: drug where
  "drug_C = no_fields\<lparr>name := Some ''C'', description := Some ''cough pain''\<rparr>"

definition aspirin_1 :: drug where
  "aspirin_1 = no_fields\<lparr>name := Some ''Aspirin'', description := Some ''pain relief''\<rparr>"


text \<open>One run: sets iterated in the order \<open>remdups\<close> gives, an empty artifact directory.\<close>

definition env_0 :: env where
  "env_0 = \<lparr>set_iter = remdups, utcnow = ''2024-01-01T00:00:00'',
            this_file = ''train_tfidf_recommender.py''\<rparr>"

definition no_artifacts :: artifacts where
  "no_artifacts = \<lparr>vocab_pkl = None, docs_pkl = None, meta_json = None\<rparr>"

definition abc_docs :: "string list" where
  "abc_docs = [''a fever pain'', ''b fever cough'', ''c cough pain'']"

definition aspirin_docs :: "string list" where
  "aspirin_docs = [''aspirin'', ''aspirin tablet'', ''low dose aspirin'', ''aspirin and caffeine'']"

text \<open>Another run: sets iterated in the opposite order, another time on the clock.\<close>

definition env_1 :: env where
  "env_1 = env_0\<lparr>set_iter := (\<lambda>toks. rev (remdups toks)), utcnow := ''2025-06-30T12:00:00''\<rparr>"

text \<open>The end-to-end scenario: three rows, the dictionary and the weights they lead to.\<close>

definition abc_drugs :: "drug list" where
  "abc_drugs = [drug_A, drug_B, drug_C]"

definition abc_idf :: "real dict" where
  "abc_idf = [(''a'', 1 + ln 2), (''fever'', 1 + ln (4 / 3)), (''pain'', 1 + ln (4 / 3)),
              (''b'', 1 + ln 2), (''cough'', 1 + ln (4 / 3)), (''c'', 1 + ln 2)]"

definition abc_name_weight :: real where
  "abc_name_weight = (1 + ln 2) * (1 + ln 2)"

definition abc_term_weight :: real where
  "abc_term_weight = (1 + ln 2) * (1 + ln (4 / 3))"

definition abc_norm :: real where
  "abc_norm = sqrt (abc_name_weight * abc_name_weight + abc_term_weight * abc_term_weight
                    + abc_term_weight * abc_term_weight)"

section \<open>The tokenizer\<close>

lemma findall_tokens: "t \<in> set (findall s) \<Longrightarrow> t \<noteq> [] \<and> (\<forall>c\<in>set t. is_az c)"
proof (induction s rule: findall.induct)
  case 1
  then show ?case by simp
next
  case (2 c cs)
  show ?case
  proof (cases "is_az c")
    case True
    with 2(3) have "t = c # takeWhile is_az cs \<or> t \<in> set (findall (dropWhile is_az cs))"
      by simp
    then show ?thesis
    proof
      assume "t = c # takeWhile is_az cs"
      with True show ?thesis by (auto dest: set_takeWhileD)
    next
      assume "t \<in> set (findall (dropWhile is_az cs))"
      from 2(1)[OF True this] show ?thesis .
    qed
  next
    case False
    with 2(3) have "t \<in> set (findall cs)" by simp
    from 2(2)[OF False this] show ?thesis .
  qed
qed

lemma findall_Cons_nonempty: "findall r = t # ts \<Longrightarrow> r \<noteq> []"
  by (cases r) simp_all

lemma findall_dropWhile_hd:
  assumes "findall (dropWhile is_az cs) = t # ts"
  shows "\<exists>d ds. dropWhile is_az cs = d # ds \<and> \<not> is_az d"
proof -
  from findall_Cons_nonempty[OF assms] have ne: "dropWhile is_az cs \<noteq> []" .
  then obtain d ds where d: "dropWhile is_az cs = d # ds"
    using list.exhaust by blast
  from hd_dropWhile[OF ne] have "\<not> is_az (hd (dropWhile is_az cs))" .
  then have "\<not> is_az d" unfolding d by simp
  with d show ?thesis by blast
qed

lemma separated_match:
  assumes g: "separated gaps (findall r) r" and r: "r = dropWhile is_az cs" and c: "is_az c"
  shows "separated ([] # gaps) ((c # takeWhile is_az cs) # findall r) (c # cs)"
proof -
  have first: "gaps ! 0 \<noteq> []" if ne: "findall r \<noteq> []"
  proof
    assume e: "gaps ! 0 = []"
    from ne obtain t ts where tt: "findall r = t # ts" using list.exhaust by blast
    from findall_dropWhile_hd[of cs t ts] tt r obtain d ds where d: "r = d # ds" "\<not> is_az d"
      by auto
    from g tt obtain g0 gs where gg: "gaps = g0 # gs"
      by (cases gaps) (simp_all add: separated_def)
    have "t \<in> set (findall r)" by (simp add: tt)
    from findall_tokens[OF this] obtain a as where t: "t = a # as" "is_az a"
      by (cases t) auto
    from e gg have "g0 = []" by simp
    with g tt gg t have "r = a # as @ weave gs ts" by (simp add: separated_def)
    with d t show False by simp
  qed
  have len: "length ([] # gaps) = Suc (length ((c # takeWhile is_az cs) # findall r))"
    using g by (simp add: separated_def)
  have "weave gaps (findall r) = r" using g by (simp add: separated_def)
  then have wv: "weave ([] # gaps) ((c # takeWhile is_az cs) # findall r) = c # cs"
    by (simp add: r)
  have az: "\<forall>g\<in>set ([] # gaps). \<forall>c\<in>set g. \<not> is_az c"
    using g by (simp add: separated_def)
  have inner: "([] # gaps) ! i \<noteq> []"
    if "0 < i" "i < length ((c # takeWhile is_az cs) # findall r)" for i
  proof (cases i)
    case 0 with that show ?thesis by simp
  next
    case (Suc j)
    show ?thesis
    proof (cases j)
      case 0
      with Suc that have "findall r \<noteq> []" by auto
      from first[OF this] Suc 0 show ?thesis by simp
    next
      case (Suc k)
      with \<open>i = Suc j\<close> that have "0 < j \<and> j < length (findall r)" by simp
      with g have "gaps ! j \<noteq> []" unfolding separated_def by blast
      with \<open>i = Suc j\<close> show ?thesis by simp
    qed
  qed
  show ?thesis unfolding separated_def
  proof (intro conjI allI impI)
    fix i assume "0 < i \<and> i < length ((c # takeWhile is_az cs) # findall r)"
    then show "([] # gaps) ! i \<noteq> []" using inner by blast
  qed (rule len wv az)+
qed

lemma separated_skip:
  assumes g: "separated gaps (findall cs) cs" and c: "\<not> is_az c"
  shows "\<exists>gaps'. separated gaps' (findall cs) (c # cs)"
proof -
  from g obtain g0 gs where gg: "gaps = g0 # gs"
    by (cases gaps) (simp_all add: separated_def)
  have len: "length ((c # g0) # gs) = Suc (length (findall cs))"
    using g gg by (simp add: separated_def)
  have "weave (g0 # gs) (findall cs) = cs" using g gg by (simp add: separated_def)
  then have wv: "weave ((c # g0) # gs) (findall cs) = c # cs"
    by (cases "findall cs") simp_all
  have az: "\<forall>g\<in>set ((c # g0) # gs). \<forall>c\<in>set g. \<not> is_az c"
    using g gg c by (simp add: separated_def)
  have inner: "((c # g0) # gs) ! i \<noteq> []" if "0 < i" "i < length (findall cs)" for i
  proof -
    from that g have "gaps ! i \<noteq> []" unfolding separated_def by blast
    with that gg show ?thesis by (cases i) simp_all
  qed
  have "separated ((c # g0) # gs) (findall cs) (c # cs)"
    unfolding separated_def
  proof (intro conjI allI impI)
    fix i assume "0 < i \<and> i < length (findall cs)"
    then show "((c # g0) # gs) ! i \<noteq> []" using inner by blast
  qed (rule len wv az)+
  then show ?thesis ..
qed

lemma findall_separated: "\<exists>gaps. separated gaps (findall s) s"
proof (induction s rule: findall.induct)
  case 1
  have "separated [[]] (findall []) []" by (simp add: separated_def)
  then show ?case ..
next
  case (2 c cs)
  show ?case
  proof (cases "is_az c")
    case True
    from 2(1)[OF True] obtain gaps
      where "separated gaps (findall (dropWhile is_az cs)) (dropWhile is_az cs)" ..
    from separated_match[OF this refl True] True
    have "separated ([] # gaps) (findall (c # cs)) (c # cs)" by simp
    then show ?thesis ..
  next
    case False
    from 2(2)[OF False] obtain gaps where "separated gaps (findall cs) cs" ..
    from separated_skip[OF this False] False show ?thesis by simp
  qed
qed

lemma findall_no_letters: "\<forall>c\<in>set g. \<not> is_az c \<Longrightarrow> findall (g @ s) = findall s"
  by (induction g) simp_all

lemma findall_run:
  assumes "t \<noteq> []" and "\<forall>c\<in>set t. is_az c" and "r = [] \<or> \<not> is_az (hd r)"
  shows "findall (t @ r) = t # findall r"
proof -
  from assms(1) obtain c cs where t: "t = c # cs" by (cases t) auto
  with assms(2) have c: "is_az c" and cs: "\<And>x. x \<in> set cs \<Longrightarrow> is_az x" by auto
  from assms(3) have tw: "takeWhile is_az r = []" and dw: "dropWhile is_az r = r"
    by (cases r; simp)+
  have "takeWhile is_az (cs @ r) = cs" using takeWhile_append2[of cs is_az r] cs tw by simp
  moreover have "dropWhile is_az (cs @ r) = r" using dropWhile_append2[of cs is_az r] cs dw by simp
  ultimately show ?thesis using c by (simp add: t)
qed

lemma separated_tail:
  assumes "separated (g0 # gs) (t # ts) s"
  shows "separated gs ts (weave gs ts)" and "s = g0 @ t @ weave gs ts"
    and "\<forall>c\<in>set g0. \<not> is_az c"
    and "weave gs ts = [] \<or> \<not> is_az (hd (weave gs ts))"
proof -
  from assms have len: "length gs = Suc (length ts)"
    and w: "weave (g0 # gs) (t # ts) = s"
    and az: "\<forall>g\<in>set (g0 # gs). \<forall>c\<in>set g. \<not> is_az c"
    and inner: "\<And>i. 0 < i \<Longrightarrow> i < length (t # ts) \<Longrightarrow> (g0 # gs) ! i \<noteq> []"
    unfolding separated_def by auto
  from w show "s = g0 @ t @ weave gs ts" by simp
  from az show "\<forall>c\<in>set g0. \<not> is_az c" by simp
  have in': "gs ! i \<noteq> []" if "i < length ts" for i
    using inner[of "Suc i"] that by simp
  show "separated gs ts (weave gs ts)"
    unfolding separated_def using len az in' by simp
  from len obtain g1 gs' where gs: "gs = g1 # gs'" by (cases gs) auto
  from az gs have g1: "\<forall>c\<in>set g1. \<not> is_az c" by simp
  show "weave gs ts = [] \<or> \<not> is_az (hd (weave gs ts))"
  proof (cases ts)
    case Nil
    with len gs have "gs' = []" by simp
    with Nil gs have "weave gs ts = g1" by simp
    with g1 show ?thesis by (cases g1) auto
  next
    case (Cons t2 ts')
    from in'[of 0] Cons gs have "g1 \<noteq> []" by simp
    then obtain d ds where "g1 = d # ds" by (cases g1) auto
    with g1 gs Cons show ?thesis by simp
  qed
qed

lemma separated_findall:
  "separated gaps toks s \<Longrightarrow> \<forall>t\<in>set toks. t \<noteq> [] \<and> (\<forall>c\<in>set t. is_az c) \<Longrightarrow> findall s = toks"
proof (induction toks arbitrary: gaps s)
  case Nil
  then obtain g where g: "gaps = [g]" unfolding separated_def by (cases gaps) auto
  with Nil.prems(1) have "s = g" and "\<forall>c\<in>set g. \<not> is_az c" unfolding separated_def by auto
  with findall_no_letters[of g "[]"] show ?case by simp
next
  case (Cons t ts)
  from Cons.prems(1) obtain g0 gs where gaps: "gaps = g0 # gs"
    unfolding separated_def by (cases gaps) auto
  note tl = separated_tail[OF Cons.prems(1)[unfolded gaps]]
  from Cons.prems(2) have ts: "\<forall>t\<in>set ts. t \<noteq> [] \<and> (\<forall>c\<in>set t. is_az c)"
    and t: "t \<noteq> []" "\<forall>c\<in>set t. is_az c" by auto
  from Cons.IH[OF tl(1) ts] have IH: "findall (weave gs ts) = ts" .
  have "findall s = findall (t @ weave gs ts)"
    unfolding tl(2) by (rule findall_no_letters[OF tl(3)])
  also have "\<dots> = t # findall (weave gs ts)" by (rule findall_run[OF t tl(4)])
  finally show ?case by (simp add: IH)
qed

lemma maximal_runs_findall: "maximal_runs toks s \<longleftrightarrow> toks = findall s"
proof
  assume "maximal_runs toks s"
  then show "toks = findall s"
    unfolding maximal_runs_def using separated_findall[of _ toks s] by blast
next
  assume "toks = findall s"
  then show "maximal_runs toks s"
    unfolding maximal_runs_def using findall_tokens findall_separated by blast
qed

lemma tokenize_example:
  "tokenize ''Drug-123 Interacts (severely)!'' = [''drug'', ''interacts'', ''severely'']"
  by code_simp

lemma lower_example: "lower ''Drug-123 Interacts (severely)!'' = ''drug-123 interacts (severely)!''"
  by code_simp

text \<open>
  C6. For every input string, \<open>tokenize\<close> lowercases it and returns, in order, the maximal
  runs of letters \<^verbatim>\<open>[a-z]\<close> of the result, everything else being a separator that is
  dropped: a token sequence is the sequence of maximal runs of the lowercased text if
  and only if it is the result of \<open>tokenize\<close>. \<^verbatim>\<open>"Drug-123 Interacts (severely)!"\<close> gives
  \<^verbatim>\<open>["drug","interacts","severely"]\<close>, and the empty token sequence is an output (of the
  empty string, and of a string without letters).
\<close>

theorem tokenize_maximal_runs:
  "(maximal_runs toks (lower doc) \<longleftrightarrow> toks = tokenize doc) \<and>
   tokenize ''Drug-123 Interacts (severely)!'' = [''drug'', ''interacts'', ''severely''] \<and>
   tokenize [] = [] \<and> tokenize ''123 -- (!)'' = []"
proof -
  have "tokenize [] = []" by (simp add: tokenize_def lower_def)
  moreover have "tokenize ''123 -- (!)'' = []" by code_simp
  ultimately show ?thesis
    by (simp add: tokenize_example maximal_runs_findall tokenize_def[of doc])
qed

theorem tokenize_maximal_runs_witness:
  "maximal_runs [''drug'', ''interacts'', ''severely''] ''drug-123 interacts (severely)!''"
  using tokenize_maximal_runs [of "[''drug'', ''interacts'', ''severely'']"
      "''Drug-123 Interacts (severely)!''"]
  by (simp add: lower_example tokenize_example)

section \<open>The corpus builder\<close>















lemma corpus_step_no_fields: "corpus_step no_fields st = st"
proof -
  have "build_corpus_row no_fields = ([], [])" by code_simp
  then show ?thesis by (simp add: corpus_step_def)
qed

lemma main_no_rows:
  "main e [] fs = (Inl (RuntimeError ''No rows found in drugs table. Ingest drugs first.''), fs)"
  by (simp add: main_def)

lemma main_empty_corpus:
  "drugs \<noteq> [] \<Longrightarrow> corpus (build_corpus drugs) = [] \<Longrightarrow>
   main e drugs fs =
     (Inl (RuntimeError ''All drug entries were empty after cleaning; nothing to train on.''), fs)"
  by (simp add: main_def)

lemma main_success:
  assumes "corpus (build_corpus drugs) \<noteq> []"
  shows "main e drugs fs =
     (let st = build_corpus drugs;
          N = length (corpus st);
          dfs = document_frequencies (set_iter e) (corpus st);
          idf = idf_table N (fst dfs)
      in (Inr (),
          fs\<lparr>vocab_pkl := Some idf,
             docs_pkl := Some (build_tfidf idf (snd dfs) (names st)),
             meta_json := Some
               \<lparr>built_at = utcnow e @ ''Z'', num_docs = N, num_terms = length idf,
                meta_notes = ''Lightweight TF-IDF recommender artifacts'',
                source = ''PostgreSQL: drugs table'', script = this_file e\<rparr>\<rparr>))"
proof -
  from assms have "drugs \<noteq> []" by (auto simp: build_corpus_def)
  with assms show ?thesis
    by (simp add: main_def Let_def split: prod.splits)
qed

text \<open>
  C8. The build fails (with a \<^verbatim>\<open>RuntimeError\<close>, the only error the script raises) exactly
  when no document survives the corpus filter: on an empty table with the message of the
  first check, otherwise with the message of the check \<^verbatim>\<open>N == 0\<close>. A row whose fields are
  all null is passed over by the corpus loop without an error, so a run on such a row and a
  proper one succeeds. When the build fails, no artifact has been written.
\<close>

theorem empty_corpus_failure:
  "((\<exists>msg. fst (main e drugs fs) = Inl (RuntimeError msg)) \<longleftrightarrow> corpus (build_corpus drugs) = []) \<and>
   (corpus (build_corpus drugs) \<noteq> [] \<longrightarrow> fst (main e drugs fs) = Inr ()) \<and>
   (drugs \<noteq> [] \<and> corpus (build_corpus drugs) = [] \<longrightarrow>
      fst (main e drugs fs) =
        Inl (RuntimeError ''All drug entries were empty after cleaning; nothing to train on.'')) \<and>
   (drugs = [] \<longrightarrow>
      fst (main e drugs fs) = Inl (RuntimeError ''No rows found in drugs table. Ingest drugs first.'')) \<and>
   (corpus (build_corpus drugs) = [] \<longrightarrow> snd (main e drugs fs) = fs) \<and>
   corpus_step no_fields st = st \<and>
   fst (main e [no_fields, aspirin_1] fs) = Inr ()"
proof -
  have ok: "fst (main e ds fs) = Inr ()" if "corpus (build_corpus ds) \<noteq> []" for ds
    using main_success[OF that, of e fs] by (simp add: Let_def)
  have bad: "\<exists>msg. fst (main e drugs fs) = Inl (RuntimeError msg)" "snd (main e drugs fs) = fs"
    if "corpus (build_corpus drugs) = []"
    using that main_no_rows[of e fs] main_empty_corpus[of drugs e fs]
    by (cases "drugs = []"; simp)+
  have ex: "corpus (build_corpus [no_fields, aspirin_1]) \<noteq> []" by code_simp
  have iff: "(\<exists>msg. fst (main e drugs fs) = Inl (RuntimeError msg)) \<longleftrightarrow> corpus (build_corpus drugs) = []"
    using ok[of drugs] bad(1) by (cases "corpus (build_corpus drugs) = []") auto
  show ?thesis
    using iff ok[of drugs] bad(2) ok[OF ex] main_empty_corpus[of drugs e fs] main_no_rows[of e fs]
    by (simp add: corpus_step_no_fields)
qed

theorem empty_corpus_failure_witness:
  "corpus (build_corpus [no_fields]) = [] \<and>
   fst (main env_0 [no_fields] no_artifacts) =
     Inl (RuntimeError ''All drug entries were empty after cleaning; nothing to train on.'') \<and>
   snd (main env_0 [no_fields] no_artifacts) = no_artifacts \<and>
   corpus (build_corpus [no_fields, aspirin_1]) \<noteq> [] \<and>
   fst (main env_0 [no_fields, aspirin_1] no_artifacts) = Inr ()"
proof -
  have "corpus (build_corpus [no_fields]) = []" "corpus (build_corpus [no_fields, aspirin_1]) \<noteq> []"
    by code_simp+
  then show ?thesis
    using empty_corpus_failure [of env_0 "[no_fields]" no_artifacts]
      empty_corpus_failure [of env_0 "[no_fields, aspirin_1]" no_artifacts]
    by simp
qed

section \<open>Document frequencies and the IDF table\<close>

lemma update_new: "k \<notin> fst ` set al \<Longrightarrow> AList.update k v al = al @ [(k, v)]"
  by (induction al) auto

lemma counter_update_distinct:
  "distinct (map fst c) \<Longrightarrow> distinct (map fst (counter_update es c))"
  unfolding counter_update_def
  by (induction es arbitrary: c) (simp_all add: distinct_update)

lemma counter_update_lookup:
  "map_of (counter_update es c) k =
     (if k \<in> set es
      then Some (count_list es k + (case map_of c k of None \<Rightarrow> 0 | Some n \<Rightarrow> n))
      else map_of c k)"
  unfolding counter_update_def
proof (induction es arbitrary: c)
  case Nil
  show ?case by simp
next
  case (Cons e es)
  show ?case
    by (simp add: Cons.IH update_conv' split: option.splits)
qed

lemma count_list_distinct: "distinct xs \<Longrightarrow> count_list xs k = (if k \<in> set xs then 1 else 0)"
  by (induction xs) auto

lemma set_order_lookup:
  assumes "set_order iter"
  shows "map_of (counter_update (iter toks) df) k =
     (if k \<in> set toks then Some (Suc (case map_of df k of None \<Rightarrow> 0 | Some n \<Rightarrow> n))
      else map_of df k)"
  using assms by (simp add: counter_update_lookup count_list_distinct set_order_def)

lemma df_fold:
  assumes "set_order iter"
  shows "map_of (fst (fold (df_step iter) docs (df, tds))) k =
           (if doc_freq docs k = 0 then map_of df k
            else Some (doc_freq docs k + (case map_of df k of None \<Rightarrow> 0 | Some n \<Rightarrow> n)))
         \<and> snd (fold (df_step iter) docs (df, tds)) = tds @ map tokenize docs
         \<and> (distinct (map fst df) \<longrightarrow> distinct (map fst (fst (fold (df_step iter) docs (df, tds)))))"
proof (induction docs arbitrary: df tds)
  case Nil
  show ?case by (simp add: doc_freq_def)
next
  case (Cons d ds)
  have step: "df_step iter d (df, tds) = (counter_update (iter (tokenize d)) df, tds @ [tokenize d])"
    by (simp add: df_step_def Let_def)
  show ?case
    unfolding fold_simps step
    using Cons.IH[of "counter_update (iter (tokenize d)) df" "tds @ [tokenize d]"]
    by (simp add: set_order_lookup[OF assms] doc_freq_def counter_update_distinct)
qed

lemma document_frequencies_lookup:
  assumes "set_order iter"
  shows "map_of (fst (document_frequencies iter docs)) k =
           (if doc_freq docs k = 0 then None else Some (doc_freq docs k))"
  using df_fold[OF assms, of docs "[]" "[]" k]
  by (simp add: document_frequencies_def)

lemma document_frequencies_tokens:
  assumes "set_order iter"
  shows "snd (document_frequencies iter docs) = map tokenize docs"
  using df_fold[OF assms, of docs "[]" "[]"]
  by (simp add: document_frequencies_def)

lemma document_frequencies_distinct:
  assumes "set_order iter"
  shows "distinct (map fst (fst (document_frequencies iter docs)))"
  using df_fold[OF assms, of docs "[]" "[]"]
  by (simp add: document_frequencies_def)

lemma idf_fold:
  "distinct (map fst acc @ map fst df) \<Longrightarrow>
   fold (\<lambda>(term, c) idf. AList.update term (g c) idf) df acc = acc @ map (\<lambda>(term, c). (term, g c)) df"
proof (induction df arbitrary: acc)
  case Nil
  show ?case by simp
next
  case (Cons p df)
  obtain t c where p: "p = (t, c)" by (cases p)
  from Cons.prems p have new: "t \<notin> fst ` set acc" by auto
  from Cons.prems p have "distinct (map fst (acc @ [(t, g c)]) @ map fst df)" by auto
  from Cons.IH[OF this] show ?case by (simp add: p update_new[OF new])
qed

lemma idf_table_map:
  "distinct (map fst df) \<Longrightarrow>
   idf_table N df = map (\<lambda>(term, c). (term, 1 + ln (real (N + 1) / real (c + 1)))) df"
  unfolding idf_table_def
  using idf_fold[of "[]" df "\<lambda>c. 1 + ln (real (N + 1) / real (c + 1))"] by simp

lemma idf_table_lookup:
  "distinct (map fst df) \<Longrightarrow>
   map_of (idf_table N df) k = map_option (\<lambda>c. 1 + ln (real (N + 1) / real (c + 1))) (map_of df k)"
  by (simp add: idf_table_map map_of_map)

lemma set_order_remdups: "set_order remdups"
  by (simp add: set_order_def)

lemma doc_freq_zero: "doc_freq docs t = 0 \<longleftrightarrow> \<not> (\<exists>doc\<in>set docs. t \<in> set (tokenize doc))"
  by (simp add: doc_freq_def filter_empty_conv)

lemma doc_freq_le: "doc_freq docs t \<le> length docs"
  by (simp add: doc_freq_def)

lemma doc_freq_all: "\<forall>doc\<in>set docs. t \<in> set (tokenize doc) \<Longrightarrow> doc_freq docs t = length docs"
  by (simp add: doc_freq_def)

lemma vocabulary_lookup:
  assumes "set_order iter"
  shows "map_of (idf_table N (fst (document_frequencies iter docs))) t =
           (if doc_freq docs t = 0 then None
            else Some (1 + ln (real (N + 1) / real (doc_freq docs t + 1))))"
  using idf_table_lookup[OF document_frequencies_distinct[OF assms], of N docs t]
    document_frequencies_lookup[OF assms, of docs t]
  by simp

lemma idf_table_keys: "distinct (map fst df) \<Longrightarrow> map fst (idf_table N df) = map fst df"
proof -
  have "map fst (map (\<lambda>(term, c). (term, g c)) df) = map fst df" for g :: "nat \<Rightarrow> real"
    by (induction df) auto
  then show "distinct (map fst df) \<Longrightarrow> map fst (idf_table N df) = map fst df"
    by (simp only: idf_table_map)
qed

lemma vocabulary_distinct:
  assumes "set_order iter"
  shows "distinct (map fst (idf_table N (fst (document_frequencies iter docs))))"
  using document_frequencies_distinct[OF assms, of docs]
  by (simp only: idf_table_keys)

lemma vocabulary_entry:
  assumes "set_order iter"
    and "(t, w) \<in> set (idf_table N (fst (document_frequencies iter docs)))"
  shows "doc_freq docs t \<noteq> 0 \<and> w = 1 + ln (real (N + 1) / real (doc_freq docs t + 1))"
proof -
  from assms(2) vocabulary_distinct[OF assms(1), of N docs]
  have "map_of (idf_table N (fst (document_frequencies iter docs))) t = Some w"
    by simp
  then show ?thesis
    unfolding vocabulary_lookup[OF assms(1)] by (simp split: if_splits)
qed

lemma idf_ge_one: "c \<le> N \<Longrightarrow> 1 \<le> 1 + ln (real (N + 1) / real (c + 1))"
proof -
  assume "c \<le> N"
  then have "1 \<le> real (N + 1) / real (c + 1)" by simp
  then have "0 \<le> ln (real (N + 1) / real (c + 1))" by (rule ln_ge_zero)
  then show ?thesis by simp
qed

lemma vocabulary_ge_one:
  assumes "set_order iter"
    and "(t, w) \<in> set (idf_table (length docs) (fst (document_frequencies iter docs)))"
  shows "1 \<le> w"
  using vocabulary_entry[OF assms] idf_ge_one[OF doc_freq_le, of docs t] by simp

lemma abc_doc_freq:
  "doc_freq abc_docs ''fever'' = 2" "doc_freq abc_docs ''pain'' = 2" "doc_freq abc_docs ''cough'' = 2"
  "doc_freq abc_docs ''a'' = 1" "doc_freq abc_docs ''b'' = 1" "doc_freq abc_docs ''c'' = 1"
  by code_simp+

lemma aspirin_doc_freq: "doc_freq aspirin_docs ''aspirin'' = 4"
  by code_simp

text \<open>
  C1. For every corpus of \<open>N\<close> documents and every order in which the sets of tokens are
  iterated, the vocabulary is a dictionary that maps exactly the terms occurring in at
  least one tokenized document, each to \<open>1 + ln ((N + 1) / (c + 1))\<close> with \<open>c\<close> the number of
  documents that contain the term; a term of no document is not in the table.
\<close>

theorem vocabulary_idf:
  assumes "set_order iter"
  shows "distinct (map fst (idf_table (length docs) (fst (document_frequencies iter docs)))) \<and>
         map_of (idf_table (length docs) (fst (document_frequencies iter docs))) t =
           (if \<exists>doc\<in>set docs. t \<in> set (tokenize doc)
            then Some (1 + ln (real (length docs + 1) / real (doc_freq docs t + 1)))
            else None)"
  using vocabulary_distinct[OF assms, of "length docs" docs]
    vocabulary_lookup[OF assms, of "length docs" docs t]
  by (simp add: doc_freq_zero)

theorem vocabulary_idf_witness:
  "set_order remdups \<and>
   map_of (idf_table (length abc_docs) (fst (document_frequencies remdups abc_docs))) ''fever'' =
     Some (1 + ln (4 / 3)) \<and>
   map_of (idf_table (length abc_docs) (fst (document_frequencies remdups abc_docs))) ''aspirin'' =
     None"
proof -
  have a: "\<exists>doc\<in>set abc_docs. ''fever'' \<in> set (tokenize doc)"
    using abc_doc_freq(1) doc_freq_zero[of abc_docs "''fever''"] by simp
  have "doc_freq abc_docs ''aspirin'' = 0" by code_simp
  then have b: "\<not> (\<exists>doc\<in>set abc_docs. ''aspirin'' \<in> set (tokenize doc))"
    using doc_freq_zero[of abc_docs "''aspirin''"] by blast
  have l: "length abc_docs = 3" by (simp add: abc_docs_def)
  show ?thesis
    using vocabulary_idf [OF set_order_remdups, of abc_docs "''fever''"]
      vocabulary_idf [OF set_order_remdups, of abc_docs "''aspirin''"] a b
    by (simp add: set_order_remdups abc_doc_freq l)
qed

text \<open>
  C2, as the claim states it: a term of every one of the \<open>N\<close> documents would have the
  weight \<open>1 + ln (1 / (N + 1))\<close>. It does not: with four documents that all contain
  \<^verbatim>\<open>aspirin\<close> the weight is \<open>1\<close>, and \<open>1 + ln (1 / 5)\<close> is another number.
\<close>

theorem idf_every_document_counterexample:
  "doc_freq aspirin_docs ''aspirin'' = length aspirin_docs \<and> length aspirin_docs = 4 \<and>
   map_of (idf_table (length aspirin_docs) (fst (document_frequencies remdups aspirin_docs)))
     ''aspirin'' \<noteq> Some (1 + ln (1 / (real (length aspirin_docs) + 1)))"
proof -
  have l: "length aspirin_docs = 4" by (simp add: aspirin_docs_def)
  have "ln (1 / 5 :: real) \<noteq> 0" by simp
  then show ?thesis
    using vocabulary_lookup[OF set_order_remdups, of 4 aspirin_docs "''aspirin''"]
    by (simp add: l aspirin_doc_freq)
qed

text \<open>
  C2, amended. Every weight of the vocabulary is positive, and a term that occurs in every
  one of the \<open>N \<ge> 1\<close> documents has the weight \<open>1 + ln ((N + 1) / (N + 1)) = 1\<close>; with four
  documents that all contain \<^verbatim>\<open>aspirin\<close>, its weight is \<open>1 + ln (5 / 5) = 1\<close>.
\<close>

theorem idf_positive:
  assumes "set_order iter"
  shows "(\<forall>(t, w) \<in> set (idf_table (length docs) (fst (document_frequencies iter docs))). 0 < w) \<and>
         (docs \<noteq> [] \<and> (\<forall>doc\<in>set docs. t \<in> set (tokenize doc)) \<longrightarrow>
            map_of (idf_table (length docs) (fst (document_frequencies iter docs))) t =
              Some (1 + ln (real (length docs + 1) / real (length docs + 1))) \<and>
            map_of (idf_table (length docs) (fst (document_frequencies iter docs))) t = Some 1) \<and>
         map_of (idf_table 4 (fst (document_frequencies iter aspirin_docs))) ''aspirin'' =
           Some (1 + ln (5 / 5)) \<and>
         map_of (idf_table 4 (fst (document_frequencies iter aspirin_docs))) ''aspirin'' = Some 1"
proof -
  have pos: "\<forall>(t, w) \<in> set (idf_table (length docs) (fst (document_frequencies iter docs))). 0 < w"
  proof (clarify)
    fix t w
    assume "(t, w) \<in> set (idf_table (length docs) (fst (document_frequencies iter docs)))"
    from vocabulary_ge_one[OF assms this] show "0 < w" by simp
  qed
  have every: "map_of (idf_table (length docs) (fst (document_frequencies iter docs))) t = Some 1"
    if "docs \<noteq> []" "\<forall>doc\<in>set docs. t \<in> set (tokenize doc)"
    using that vocabulary_lookup[OF assms, of "length docs" docs t]
    by (simp add: doc_freq_all)
  have asp: "map_of (idf_table 4 (fst (document_frequencies iter aspirin_docs))) ''aspirin'' = Some 1"
    using vocabulary_lookup[OF assms, of 4 aspirin_docs "''aspirin''"]
    by (simp add: aspirin_doc_freq)
  show ?thesis using pos every asp by simp
qed

theorem idf_positive_witness:
  "set_order remdups \<and>
   (''aspirin'', 1) \<in> set (idf_table (length aspirin_docs) (fst (document_frequencies remdups aspirin_docs))) \<and>
   aspirin_docs \<noteq> [] \<and> doc_freq aspirin_docs ''aspirin'' = length aspirin_docs \<and>
   map_of (idf_table (length aspirin_docs) (fst (document_frequencies remdups aspirin_docs))) ''aspirin'' = Some 1"
proof -
  have l: "length aspirin_docs = 4" by (simp add: aspirin_docs_def)
  then have ne: "aspirin_docs \<noteq> []" by auto
  have m: "map_of (idf_table 4 (fst (document_frequencies remdups aspirin_docs))) ''aspirin'' = Some 1"
    using idf_positive [OF set_order_remdups, of aspirin_docs "''aspirin''"] by simp
  from map_of_SomeD[OF m] m show ?thesis
    by (simp add: set_order_remdups aspirin_doc_freq l ne)
qed

section \<open>The document weighter\<close>

lemma Counter_lookup:
  "map_of (Counter toks) k = (if k \<in> set toks then Some (count_list toks k) else None)"
  by (simp add: Counter_def counter_update_lookup)

lemma Counter_distinct: "distinct (map fst (Counter toks))"
  using counter_update_distinct[of "[]" toks] by (simp add: Counter_def)

lemma raw_fold:
  "distinct (map fst acc @ map fst cnt) \<Longrightarrow>
   fold (\<lambda>(term, f) weights.
           case map_of idf term of
             None \<Rightarrow> weights
           | Some i \<Rightarrow> AList.update term (h f i) weights) cnt acc
   = acc @ List.map_filter (\<lambda>(term, f). map_option (\<lambda>i. (term, h f i)) (map_of idf term)) cnt"
proof (induction cnt arbitrary: acc)
  case Nil
  show ?case by (simp add: map_filter_simps)
next
  case (Cons p cnt)
  obtain t f where p: "p = (t, f)" by (cases p)
  show ?case
  proof (cases "map_of idf t")
    case None
    from Cons.prems have "distinct (map fst acc @ map fst cnt)" by simp
    from Cons.IH[OF this] show ?thesis by (simp add: p None map_filter_simps)
  next
    case (Some i)
    from Cons.prems p have new: "t \<notin> fst ` set acc" by auto
    from Cons.prems p have "distinct (map fst (acc @ [(t, h f i)]) @ map fst cnt)" by auto
    from Cons.IH[OF this] show ?thesis
      by (simp add: p Some map_filter_simps update_new[OF new])
  qed
qed

lemma raw_weights_eq:
  "raw_weights idf toks =
     List.map_filter (\<lambda>(term, f). map_option (\<lambda>i. (term, (1 + ln (1 + real f)) * i)) (map_of idf term))
       (Counter toks)"
  unfolding raw_weights_def
  using raw_fold[where acc="[]" and cnt="Counter toks" and idf=idf
      and h="\<lambda>f i. (1 + ln (1 + real f)) * i"] Counter_distinct[of toks]
  by simp

lemma map_filter_keys:
  "map fst (List.map_filter (\<lambda>(term, f). map_option (\<lambda>i. (term, h f i)) (m term)) cnt)
     = filter (\<lambda>k. m k \<noteq> None) (map fst cnt)"
proof (induction cnt)
  case Nil
  show ?case by (simp add: map_filter_simps)
next
  case (Cons p cnt)
  obtain t f where p: "p = (t, f)" by (cases p)
  show ?case using Cons.IH by (cases "m t") (simp_all add: p map_filter_simps)
qed

lemma map_filter_lookup:
  "distinct (map fst cnt) \<Longrightarrow>
   map_of (List.map_filter (\<lambda>(term, f). map_option (\<lambda>i. (term, h f i)) (m term)) cnt) k
     = (case map_of cnt k of None \<Rightarrow> None | Some f \<Rightarrow> map_option (h f) (m k))"
proof (induction cnt)
  case Nil
  show ?case by (simp add: map_filter_simps)
next
  case (Cons p cnt)
  obtain t f where p: "p = (t, f)" by (cases p)
  from Cons.prems p have t: "map_of cnt t = None"
    by (simp add: map_of_eq_None_iff)
  from Cons.prems have IH: "map_of (List.map_filter (\<lambda>(term, f). map_option (\<lambda>i. (term, h f i)) (m term)) cnt) k
     = (case map_of cnt k of None \<Rightarrow> None | Some f \<Rightarrow> map_option (h f) (m k))"
    using Cons.IH by simp
  show ?case
  proof (cases "k = t")
    case True
    with IH t show ?thesis by (cases "m t") (simp_all add: p map_filter_simps)
  next
    case False
    with IH show ?thesis by (cases "m t") (simp_all add: p map_filter_simps)
  qed
qed

lemma raw_weights_distinct: "distinct (map fst (raw_weights idf toks))"
  unfolding raw_weights_eq map_filter_keys
  using Counter_distinct[of toks] by simp

lemma raw_weights_map_of:
  "map_of (raw_weights idf toks) k =
     (if k \<in> set toks
      then map_option (\<lambda>i. (1 + ln (1 + real (count_list toks k))) * i) (map_of idf k)
      else None)"
  unfolding raw_weights_eq
  using map_filter_lookup[OF Counter_distinct, where h="\<lambda>f i. (1 + ln (1 + real f)) * i"
      and m="map_of idf" and toks1=toks and k=k]
  by (simp add: Counter_lookup)

lemma raw_weights_entry:
  "(k, w) \<in> set (raw_weights idf toks) \<longleftrightarrow>
     k \<in> set toks \<and> (\<exists>i. map_of idf k = Some i \<and> w = (1 + ln (1 + real (count_list toks k))) * i)"
proof -
  have "(k, w) \<in> set (raw_weights idf toks) \<longleftrightarrow> map_of (raw_weights idf toks) k = Some w"
    using raw_weights_distinct[of idf toks] by simp
  then show ?thesis
    unfolding raw_weights_map_of by (cases "map_of idf k") auto
qed

lemma raw_weights_empty:
  "raw_weights idf toks = [] \<longleftrightarrow> (\<forall>k\<in>set toks. map_of idf k = None)"
proof
  assume e: "raw_weights idf toks = []"
  show "\<forall>k\<in>set toks. map_of idf k = None"
  proof
    fix k assume "k \<in> set toks"
    with raw_weights_map_of[of idf toks k] e show "map_of idf k = None" by simp
  qed
next
  assume a: "\<forall>k\<in>set toks. map_of idf k = None"
  show "raw_weights idf toks = []"
  proof (cases "raw_weights idf toks")
    case Nil
    then show ?thesis .
  next
    case (Cons p ps)
    obtain k w where "p = (k, w)" by (cases p)
    with Cons have "(k, w) \<in> set (raw_weights idf toks)" by simp
    with a show ?thesis unfolding raw_weights_entry by auto
  qed
qed

text \<open>
  C3. For every token sequence and every vocabulary, a token of the vocabulary gets the
  raw weight \<open>(1 + ln (1 + f)) * idf\<close>, with \<open>f\<close> the number of its occurrences in the
  sequence; a token that is not in the vocabulary gets no entry. The weighter is a total
  function: the lookup \<^verbatim>\<open>idf[term]\<close> is reached only for a term of the vocabulary.
\<close>

theorem raw_weights_lookup:
  "map_of (raw_weights idf toks) t =
     (if t \<in> set toks
      then (case map_of idf t of
              None \<Rightarrow> None
            | Some i \<Rightarrow> Some ((1 + ln (1 + real (count_list toks t))) * i))
      else None) \<and>
   distinct (map fst (raw_weights idf toks)) \<and>
   set (map fst (raw_weights idf toks)) = {k \<in> set toks. map_of idf k \<noteq> None}"
proof -
  have "set (map fst (raw_weights idf toks)) = {k \<in> set toks. map_of idf k \<noteq> None}"
  proof -
    have "dom (map_of (Counter toks)) = set toks"
      by (auto simp: Counter_lookup dom_def split: if_splits)
    then have "fst ` set (Counter toks) = set toks"
      by (simp add: dom_map_of_conv_image_fst)
    then show ?thesis
      unfolding raw_weights_eq map_filter_keys by auto
  qed
  then show ?thesis
    using raw_weights_map_of[of idf toks t] raw_weights_distinct[of idf toks]
    by (cases "map_of idf t") simp_all
qed

theorem raw_weights_lookup_witness:
  "map_of (raw_weights [(''fever'', 2)] [''fever'', ''zzz'', ''fever'']) ''fever'' = Some ((1 + ln 3) * 2) \<and>
   map_of (raw_weights [(''fever'', 2)] [''fever'', ''zzz'', ''fever'']) ''zzz'' = None \<and>
   set (map fst (raw_weights [(''fever'', 2)] [''fever'', ''zzz'', ''fever''])) = {''fever''}"
  using raw_weights_lookup [of "[(''fever'', 2)]" "[''fever'', ''zzz'', ''fever'']" "''fever''"]
    raw_weights_lookup [of "[(''fever'', 2)]" "[''fever'', ''zzz'', ''fever'']" "''zzz''"]
  by auto

subsection \<open>Normalization\<close>

lemma sumsq_nonneg: "0 \<le> sum_list (map (\<lambda>(t, v). v * v) (ws :: real dict))"
  by (induction ws) auto

lemma sumsq_pos:
  "ws \<noteq> [] \<Longrightarrow> \<forall>(t, v)\<in>set ws. v \<noteq> 0 \<Longrightarrow> 0 < sum_list (map (\<lambda>(t, v). v * v) (ws :: real dict))"
proof (induction ws)
  case Nil
  then show ?case by simp
next
  case (Cons p ws)
  obtain t v where p: "p = (t, v)" by (cases p)
  with Cons.prems have "v \<noteq> 0" by simp
  then have "0 < v * v" using not_real_square_gt_zero[of v] by blast
  with sumsq_nonneg[of ws] show ?case by (simp add: p)
qed

lemma l2_norm_pos:
  "ws \<noteq> [] \<Longrightarrow> \<forall>(t, v)\<in>set ws. v \<noteq> 0 \<Longrightarrow> 0 < l2_norm ws"
  unfolding l2_norm_def using sumsq_pos[of ws] by simp

lemma sumsq_scale:
  "sum_list (map (\<lambda>(t, v). v * v) (map (\<lambda>(t, v). (t, v / n)) (ws :: real dict)))
     = sum_list (map (\<lambda>(t, v). v * v) ws) / (n * n)"
  by (induction ws) (auto simp: add_divide_distrib)

lemma l2_norm_scaled:
  assumes "0 < l2_norm ws"
  shows "l2_norm (map (\<lambda>(t, v). (t, v / l2_norm ws)) ws) = 1"
proof -
  let ?S = "sum_list (map (\<lambda>(t, v). v * v) ws)"
  from assms have pos: "0 < ?S" by (simp add: l2_norm_def)
  then have "sqrt ?S * sqrt ?S = ?S" by simp
  with pos have q: "?S / (sqrt ?S * sqrt ?S) = 1" by simp
  show ?thesis
    unfolding l2_norm_def sumsq_scale q by simp
qed

lemma l2_normalize_pos:
  "0 < l2_norm ws \<Longrightarrow> l2_normalize ws = map (\<lambda>(t, v). (t, v / l2_norm ws)) ws"
  by (simp add: l2_normalize_def norm_or_one_def)

lemma l2_normalize_Nil: "l2_normalize [] = []"
  by (simp add: l2_normalize_def)

lemma norm_or_one_nonzero: "norm_or_one ws \<noteq> 0"
  by (simp add: norm_or_one_def)

lemma ln_count_pos: "0 < 1 + ln (1 + real f)"
proof -
  have "0 \<le> ln (1 + real f)" by (rule ln_ge_zero) simp
  then show ?thesis by linarith
qed

lemma raw_weights_pos:
  assumes "\<forall>(t, i)\<in>set idf. 0 < i" and "(k, w) \<in> set (raw_weights idf toks)"
  shows "0 < w"
proof -
  from assms(2) obtain i where i: "map_of idf k = Some i"
      "w = (1 + ln (1 + real (count_list toks k))) * i"
    unfolding raw_weights_entry by blast
  from map_of_SomeD[OF i(1)] assms(1) have "0 < i" by auto
  with ln_count_pos[of "count_list toks k"] show ?thesis
    unfolding i(2) by (rule mult_pos_pos)
qed

lemma raw_weights_norm_pos:
  assumes "\<forall>(t, i)\<in>set idf. 0 < i" and "raw_weights idf toks \<noteq> []"
  shows "0 < l2_norm (raw_weights idf toks)"
proof (rule l2_norm_pos[OF assms(2)], clarify)
  fix k assume "(k, 0) \<in> set (raw_weights idf toks)"
  from raw_weights_pos[OF assms(1) this] show False by simp
qed

text \<open>
  C4. For a vocabulary of positive weights: a document with no recognized term gets the
  empty mapping, and the divisor \<^verbatim>\<open>norm\<close> is never zero; a document with a recognized
  term gets its raw weights divided by their L2 norm, and every non-empty vector has the
  norm one (in exact arithmetic, so within \<open>10\<^sup>-\<^sup>9\<close> of one).
\<close>

theorem weigh_document_normalized:
  assumes "\<forall>(t, i)\<in>set idf. 0 < i"
  shows "((\<forall>t\<in>set toks. map_of idf t = None) \<longrightarrow> weigh_document idf toks = []) \<and>
         norm_or_one (raw_weights idf toks) \<noteq> 0 \<and>
         ((\<exists>t\<in>set toks. map_of idf t \<noteq> None) \<longrightarrow>
            weigh_document idf toks \<noteq> [] \<and>
            l2_norm (raw_weights idf toks) = sqrt (sum_list (map (\<lambda>(t, v). v * v) (raw_weights idf toks))) \<and>
            weigh_document idf toks =
              map (\<lambda>(t, v). (t, v / l2_norm (raw_weights idf toks))) (raw_weights idf toks)) \<and>
         (weigh_document idf toks \<noteq> [] \<longrightarrow>
            l2_norm (weigh_document idf toks) = 1 \<and>
            \<bar>l2_norm (weigh_document idf toks) - 1\<bar> < 1 / 10 ^ 9)"
proof -
  have none: "weigh_document idf toks = []" if "\<forall>t\<in>set toks. map_of idf t = None"
    using that raw_weights_empty[of idf toks] by (simp add: weigh_document_def l2_normalize_Nil)
  have ne: "weigh_document idf toks \<noteq> [] \<longleftrightarrow> raw_weights idf toks \<noteq> []"
    by (simp add: weigh_document_def l2_normalize_def)
  have some: "weigh_document idf toks =
      map (\<lambda>(t, v). (t, v / l2_norm (raw_weights idf toks))) (raw_weights idf toks)"
    and one: "l2_norm (weigh_document idf toks) = 1"
    if "raw_weights idf toks \<noteq> []"
  proof -
    from raw_weights_norm_pos[OF assms that] have pos: "0 < l2_norm (raw_weights idf toks)" .
    show "weigh_document idf toks =
      map (\<lambda>(t, v). (t, v / l2_norm (raw_weights idf toks))) (raw_weights idf toks)"
      by (simp add: weigh_document_def l2_normalize_pos[OF pos])
    then show "l2_norm (weigh_document idf toks) = 1"
      using l2_norm_scaled[OF pos] by simp
  qed
  have ex: "raw_weights idf toks \<noteq> []" if "\<exists>t\<in>set toks. map_of idf t \<noteq> None"
    using that raw_weights_empty[of idf toks] by auto
  show ?thesis
    using none some one ex ne norm_or_one_nonzero[of "raw_weights idf toks"]
    by (simp add: l2_norm_def[of "raw_weights idf toks"])
qed

theorem weigh_document_normalized_witness:
  "(0::real) < 2 \<and>
   weigh_document [(''fever'', 2)] [''zzz''] = [] \<and>
   weigh_document [(''fever'', 2)] [''fever'', ''zzz''] \<noteq> [] \<and>
   l2_norm (weigh_document [(''fever'', 2)] [''fever'', ''zzz'']) = 1"
proof -
  have h: "\<forall>(t, i)\<in>set [(''fever'', 2::real)]. 0 < i" by simp
  have none: "\<forall>t\<in>set [''zzz'']. map_of [(''fever'', 2::real)] t = None" by simp
  have some: "\<exists>t\<in>set [''fever'', ''zzz'']. map_of [(''fever'', 2::real)] t \<noteq> None" by simp
  have 1: "weigh_document [(''fever'', 2)] [''zzz''] = []"
    using weigh_document_normalized [OF h, of "[''zzz'']"] none by blast
  have 2: "weigh_document [(''fever'', 2)] [''fever'', ''zzz''] \<noteq> []"
    using weigh_document_normalized [OF h, of "[''fever'', ''zzz'']"] some by blast
  have 3: "l2_norm (weigh_document [(''fever'', 2)] [''fever'', ''zzz'']) = 1"
    using weigh_document_normalized [OF h, of "[''fever'', ''zzz'']"] 2 by blast
  show ?thesis using 1 2 3 by simp
qed

section \<open>The whole run\<close>

lemma main_Inr_corpus:
  assumes "main e drugs fs = (Inr (), fs')"
  shows "corpus (build_corpus drugs) \<noteq> []"
proof
  assume empty: "corpus (build_corpus drugs) = []"
  show False
  proof (cases "drugs = []")
    case True
    with assms main_no_rows[of e fs] show False by simp
  next
    case False
    from main_empty_corpus[OF False empty, of e fs] assms show False by simp
  qed
qed

lemma main_artifacts:
  assumes "main e drugs fs = (Inr (), fs')"
  shows "vocab_pkl fs' =
           Some (idf_table (length (corpus (build_corpus drugs)))
                   (fst (document_frequencies (set_iter e) (corpus (build_corpus drugs)))))"
    and "docs_pkl fs' =
           Some (build_tfidf
                   (idf_table (length (corpus (build_corpus drugs)))
                      (fst (document_frequencies (set_iter e) (corpus (build_corpus drugs)))))
                   (snd (document_frequencies (set_iter e) (corpus (build_corpus drugs))))
                   (names (build_corpus drugs)))"
  using main_success[OF main_Inr_corpus[OF assms], of e fs] assms
  by (auto simp: Let_def)

lemma build_tfidf_entry:
  assumes "(nm, ws) \<in> set (build_tfidf idf tds nms)"
  shows "\<exists>toks\<in>set tds. ws = weigh_document idf toks"
proof -
  from assms obtain toks nm' where "(toks, nm') \<in> set (zip tds nms)" "ws = weigh_document idf toks"
    unfolding build_tfidf_def by auto
  then show ?thesis by (auto dest: set_zip_leftD)
qed

lemma raw_weights_ge:
  assumes "\<forall>(t, i)\<in>set idf. 1 \<le> i" and "(k, w) \<in> set (raw_weights idf toks)"
  shows "1 + ln 2 \<le> w"
proof -
  from assms(2) obtain i where i: "k \<in> set toks" "map_of idf k = Some i"
      "w = (1 + ln (1 + real (count_list toks k))) * i"
    unfolding raw_weights_entry by blast
  from map_of_SomeD[OF i(2)] assms(1) have i1: "1 \<le> i" by auto
  from i(1) have "count_list toks k \<noteq> 0" by (simp add: count_list_0_iff)
  then have "(2::real) \<le> 1 + real (count_list toks k)" by simp
  then have "ln (2::real) \<le> ln (1 + real (count_list toks k))" by simp
  then have f: "1 + ln 2 \<le> 1 + ln (1 + real (count_list toks k))" by simp
  have "0 \<le> ln (2::real)" by simp
  then have "(1 + ln 2) * 1 \<le> (1 + ln (1 + real (count_list toks k))) * i"
    using f i1 by (intro mult_mono) simp_all
  then show ?thesis by (simp add: i(3))
qed

lemma weigh_document_entry:
  assumes "\<forall>(t, i)\<in>set idf. 0 < i" and "(k, w) \<in> set (weigh_document idf toks)"
  shows "\<exists>v. (k, v) \<in> set (raw_weights idf toks) \<and> 0 < v \<and>
             0 < l2_norm (raw_weights idf toks) \<and> w = v / l2_norm (raw_weights idf toks)"
proof -
  from assms(2) have ne: "raw_weights idf toks \<noteq> []"
    by (auto simp: weigh_document_def l2_normalize_def)
  from raw_weights_norm_pos[OF assms(1) ne] have pos: "0 < l2_norm (raw_weights idf toks)" .
  from assms(2) obtain v where v: "(k, v) \<in> set (raw_weights idf toks)"
      "w = v / l2_norm (raw_weights idf toks)"
    unfolding weigh_document_def l2_normalize_pos[OF pos] by auto
  from raw_weights_pos[OF assms(1) v(1)] pos v show ?thesis by blast
qed

text \<open>
  C10. In the artifacts of a successful run, every weight of the vocabulary is at least
  one; every document vector is the normalization of raw weights that are all at least
  \<open>1 + ln 2\<close>, by a norm that is positive when the vector is not empty; and every weight
  stored in a document vector is strictly positive.
\<close>

theorem document_weights_positive:
  assumes "set_order (set_iter e)" and "main e drugs fs = (Inr (), fs')"
  shows "\<exists>idf docs.
           vocab_pkl fs' = Some idf \<and> docs_pkl fs' = Some docs \<and>
           (\<forall>(t, i)\<in>set idf. 1 \<le> i) \<and>
           (\<forall>(nm, ws)\<in>set docs.
              (\<exists>toks. ws = l2_normalize (raw_weights idf toks) \<and>
                      (\<forall>(t, v)\<in>set (raw_weights idf toks). 1 + ln 2 \<le> v) \<and>
                      (ws \<noteq> [] \<longrightarrow> 0 < l2_norm (raw_weights idf toks))) \<and>
              (\<forall>(t, w)\<in>set ws. 0 < w))"
proof -
  let ?docs = "corpus (build_corpus drugs)"
  let ?idf = "idf_table (length ?docs) (fst (document_frequencies (set_iter e) ?docs))"
  let ?vecs = "build_tfidf ?idf (snd (document_frequencies (set_iter e) ?docs)) (names (build_corpus drugs))"
  have ge: "\<forall>(t, i)\<in>set ?idf. 1 \<le> i"
    using vocabulary_ge_one[OF assms(1), of _ _ ?docs] by blast
  then have pos: "\<forall>(t, i)\<in>set ?idf. 0 < i" by fastforce
  have vec: "(\<exists>toks. ws = l2_normalize (raw_weights ?idf toks) \<and>
                      (\<forall>(t, v)\<in>set (raw_weights ?idf toks). 1 + ln 2 \<le> v) \<and>
                      (ws \<noteq> [] \<longrightarrow> 0 < l2_norm (raw_weights ?idf toks))) \<and>
              (\<forall>(t, w)\<in>set ws. 0 < w)"
    if "(nm, ws) \<in> set ?vecs" for nm ws
  proof -
    from build_tfidf_entry[OF that] obtain toks where ws: "ws = weigh_document ?idf toks" by blast
    have a: "ws = l2_normalize (raw_weights ?idf toks)" by (simp add: ws weigh_document_def)
    have b: "\<forall>(t, v)\<in>set (raw_weights ?idf toks). 1 + ln 2 \<le> v"
      using raw_weights_ge[OF ge] by blast
    have c: "0 < l2_norm (raw_weights ?idf toks)" if "ws \<noteq> []"
    proof -
      from that a have "raw_weights ?idf toks \<noteq> []" by (auto simp: l2_normalize_Nil)
      from raw_weights_norm_pos[OF pos this] show ?thesis .
    qed
    have d: "\<forall>(t, w)\<in>set ws. 0 < w"
    proof (clarify)
      fix t w assume "(t, w) \<in> set ws"
      with weigh_document_entry[OF pos, of t w toks] ws
      obtain v where "0 < v" "0 < l2_norm (raw_weights ?idf toks)"
        "w = v / l2_norm (raw_weights ?idf toks)" by blast
      then show "0 < w" by simp
    qed
    from a b c d show ?thesis by blast
  qed
  have "vocab_pkl fs' = Some ?idf \<and> docs_pkl fs' = Some ?vecs"
    using main_artifacts[OF assms(2)] by simp
  with ge vec show ?thesis by blast
qed

lemma l2_normalize_member:
  "(k, v) \<in> set ws \<Longrightarrow> (k, v / norm_or_one ws) \<in> set (l2_normalize ws)"
  by (force simp: l2_normalize_def)

lemma set_order_env_0: "set_order (set_iter env_0)"
  by (simp add: env_0_def set_order_remdups)

lemma aspirin_corpus:
  "corpus (build_corpus [aspirin_1]) = [''aspirin pain relief'']"
  "names (build_corpus [aspirin_1]) = [''Aspirin'']"
  "tokenize ''aspirin pain relief'' = [''aspirin'', ''pain'', ''relief'']"
  "doc_freq [''aspirin pain relief''] ''aspirin'' = 1"
  by code_simp+

theorem document_weights_positive_witness:
  "set_order (set_iter env_0) \<and>
   main env_0 [aspirin_1] no_artifacts = (Inr (), snd (main env_0 [aspirin_1] no_artifacts)) \<and>
   (\<exists>idf docs ws w.
      vocab_pkl (snd (main env_0 [aspirin_1] no_artifacts)) = Some idf \<and>
      docs_pkl (snd (main env_0 [aspirin_1] no_artifacts)) = Some docs \<and>
      (''aspirin'', 1) \<in> set idf \<and> (''Aspirin'', ws) \<in> set docs \<and>
      (''aspirin'', w) \<in> set ws \<and> 0 < w)"
proof -
  let ?fs = "snd (main env_0 [aspirin_1] no_artifacts)"
  have ne: "corpus (build_corpus [aspirin_1]) \<noteq> []" by (simp add: aspirin_corpus)
  have "fst (main env_0 [aspirin_1] no_artifacts) = Inr ()"
    using main_success[OF ne, of env_0 no_artifacts] by (simp add: Let_def)
  then have run: "main env_0 [aspirin_1] no_artifacts = (Inr (), ?fs)"
    by (simp add: prod_eq_iff)
  from document_weights_positive [OF set_order_env_0 run]
  obtain idf docs where P: "vocab_pkl ?fs = Some idf" "docs_pkl ?fs = Some docs"
      "\<forall>(t, i)\<in>set idf. 1 \<le> i"
      "\<forall>(nm, ws)\<in>set docs.
          (\<exists>toks. ws = l2_normalize (raw_weights idf toks) \<and>
                  (\<forall>(t, v)\<in>set (raw_weights idf toks). 1 + ln 2 \<le> v) \<and>
                  (ws \<noteq> [] \<longrightarrow> 0 < l2_norm (raw_weights idf toks))) \<and>
          (\<forall>(t, w)\<in>set ws. 0 < w)"
    by blast
  let ?toks = "[''aspirin'', ''pain'', ''relief'']"
  from main_artifacts(1)[OF run] P(1)
  have idf: "idf = idf_table 1 (fst (document_frequencies (set_iter env_0) [''aspirin pain relief'']))"
    by (simp add: aspirin_corpus)
  from main_artifacts(2)[OF run] P(2)
  have docs: "docs = [(''Aspirin'', weigh_document idf ?toks)]"
    by (simp add: aspirin_corpus idf document_frequencies_tokens[OF set_order_env_0] build_tfidf_def)
  have "map_of idf ''aspirin'' = Some 1"
    unfolding idf vocabulary_lookup[OF set_order_env_0] by (simp add: aspirin_corpus)
  then have in_idf: "(''aspirin'', 1) \<in> set idf" by (rule map_of_SomeD)
  from \<open>map_of idf ''aspirin'' = Some 1\<close>
  have "map_of (raw_weights idf ?toks) ''aspirin'' = Some ((1 + ln 2) * 1)"
    unfolding raw_weights_map_of by simp
  then have "(''aspirin'', (1 + ln 2) * 1) \<in> set (raw_weights idf ?toks)" by (rule map_of_SomeD)
  from l2_normalize_member[OF this]
  have mem: "(''aspirin'', (1 + ln 2) * 1 / norm_or_one (raw_weights idf ?toks))
               \<in> set (weigh_document idf ?toks)"
    by (simp add: weigh_document_def)
  have vec: "(''Aspirin'', weigh_document idf ?toks) \<in> set docs" by (simp add: docs)
  from P(4) vec have "\<forall>(t, w)\<in>set (weigh_document idf ?toks). 0 < w" by auto
  with mem have "0 < (1 + ln 2) * 1 / norm_or_one (raw_weights idf ?toks)" by auto
  with P(1,2) in_idf vec mem run show ?thesis
    using set_order_env_0 by blast
qed

lemma raw_weights_cong:
  "map_of idf = map_of idf' \<Longrightarrow> raw_weights idf toks = raw_weights idf' toks"
  by (simp add: raw_weights_def)

lemma build_tfidf_cong:
  "map_of idf = map_of idf' \<Longrightarrow> build_tfidf idf tds nms = build_tfidf idf' tds nms"
  by (simp add: build_tfidf_def weigh_document_def raw_weights_cong[of idf idf'])

section \<open>The end-to-end scenario\<close>

lemma abc_corpus:
  "corpus (build_corpus abc_drugs) = abc_docs"
  "names (build_corpus abc_drugs) = [''A'', ''B'', ''C'']"
  by code_simp+

lemma abc_tokens:
  "tokenize ''a fever pain'' = [''a'', ''fever'', ''pain'']"
  "tokenize ''b fever cough'' = [''b'', ''fever'', ''cough'']"
  "tokenize ''c cough pain'' = [''c'', ''cough'', ''pain'']"
  by code_simp+

lemma abc_df_keys:
  "map fst (fst (document_frequencies remdups abc_docs)) =
     [''a'', ''fever'', ''pain'', ''b'', ''cough'', ''c'']"
  by code_simp

lemma abc_doc_freq_cases:
  "doc_freq abc_docs t =
     (if t \<in> {''fever'', ''pain'', ''cough''} then 2 else if t \<in> {''a'', ''b'', ''c''} then 1 else 0)"
  by (simp add: doc_freq_def abc_docs_def abc_tokens)

lemma abc_vocabulary:
  assumes "set_order iter"
  shows "map_of (idf_table 3 (fst (document_frequencies iter abc_docs))) = map_of abc_idf"
proof (rule ext)
  fix t
  show "map_of (idf_table 3 (fst (document_frequencies iter abc_docs))) t = map_of abc_idf t"
    unfolding vocabulary_lookup[OF assms] abc_doc_freq_cases
    by (simp add: abc_idf_def)
qed

lemma abc_raw_weights:
  "raw_weights abc_idf [''a'', ''fever'', ''pain''] =
     [(''a'', abc_name_weight), (''fever'', abc_term_weight), (''pain'', abc_term_weight)]"
  "raw_weights abc_idf [''b'', ''fever'', ''cough''] =
     [(''b'', abc_name_weight), (''fever'', abc_term_weight), (''cough'', abc_term_weight)]"
  "raw_weights abc_idf [''c'', ''cough'', ''pain''] =
     [(''c'', abc_name_weight), (''cough'', abc_term_weight), (''pain'', abc_term_weight)]"
  by (simp_all add: raw_weights_def Counter_def counter_update_def abc_idf_def
      abc_name_weight_def abc_term_weight_def)

lemma abc_norm_pos: "0 < abc_norm"
proof -
  have "0 < 1 + ln (2::real)" using ln_count_pos[of 1] by simp
  then have "0 < abc_name_weight * abc_name_weight"
    by (simp add: abc_name_weight_def)
  moreover have "0 \<le> abc_term_weight * abc_term_weight" by simp
  ultimately have "0 < abc_name_weight * abc_name_weight + abc_term_weight * abc_term_weight
                    + abc_term_weight * abc_term_weight" by linarith
  then show ?thesis unfolding abc_norm_def by (simp only: real_sqrt_gt_0_iff)
qed

lemma abc_normalize:
  "l2_normalize [(k1, abc_name_weight), (k2, abc_term_weight), (k3, abc_term_weight)] =
     [(k1, abc_name_weight / abc_norm), (k2, abc_term_weight / abc_norm),
      (k3, abc_term_weight / abc_norm)]"
proof -
  have "l2_norm [(k1, abc_name_weight), (k2, abc_term_weight), (k3, abc_term_weight)] = abc_norm"
    by (simp add: l2_norm_def abc_norm_def)
  then show ?thesis
    using abc_norm_pos by (simp add: l2_normalize_def norm_or_one_def)
qed

lemma abc_run:
  assumes "set_order (set_iter e)"
  shows "fst (main e abc_drugs fs) = Inr ()"
    and "vocab_pkl (snd (main e abc_drugs fs)) =
           Some (idf_table 3 (fst (document_frequencies (set_iter e) abc_docs)))"
    and "docs_pkl (snd (main e abc_drugs fs)) =
           Some [(''A'', [(''a'', abc_name_weight / abc_norm), (''fever'', abc_term_weight / abc_norm),
                          (''pain'', abc_term_weight / abc_norm)]),
                 (''B'', [(''b'', abc_name_weight / abc_norm), (''fever'', abc_term_weight / abc_norm),
                          (''cough'', abc_term_weight / abc_norm)]),
                 (''C'', [(''c'', abc_name_weight / abc_norm), (''cough'', abc_term_weight / abc_norm),
                          (''pain'', abc_term_weight / abc_norm)])]"
proof -
  have l: "length abc_docs = 3" by (simp add: abc_docs_def)
  have ne: "corpus (build_corpus abc_drugs) \<noteq> []"
    using l by (auto simp: abc_corpus)
  note run = main_success[OF ne, of e fs, unfolded Let_def abc_corpus l]
  show "fst (main e abc_drugs fs) = Inr ()" by (simp add: run)
  show "vocab_pkl (snd (main e abc_drugs fs)) =
           Some (idf_table 3 (fst (document_frequencies (set_iter e) abc_docs)))"
    by (simp add: run)
  have toks: "snd (document_frequencies (set_iter e) abc_docs) =
      [[''a'', ''fever'', ''pain''], [''b'', ''fever'', ''cough''], [''c'', ''cough'', ''pain'']]"
    unfolding document_frequencies_tokens[OF assms] by (simp add: abc_docs_def abc_tokens)
  have w: "weigh_document (idf_table 3 (fst (document_frequencies (set_iter e) abc_docs))) toks
         = l2_normalize (raw_weights abc_idf toks)" for toks
    unfolding weigh_document_def
    by (simp only: raw_weights_cong[OF abc_vocabulary[OF assms]])
  show "docs_pkl (snd (main e abc_drugs fs)) =
           Some [(''A'', [(''a'', abc_name_weight / abc_norm), (''fever'', abc_term_weight / abc_norm),
                          (''pain'', abc_term_weight / abc_norm)]),
                 (''B'', [(''b'', abc_name_weight / abc_norm), (''fever'', abc_term_weight / abc_norm),
                          (''cough'', abc_term_weight / abc_norm)]),
                 (''C'', [(''c'', abc_name_weight / abc_norm), (''cough'', abc_term_weight / abc_norm),
                          (''pain'', abc_term_weight / abc_norm)])]"
    by (simp add: run toks build_tfidf_def w abc_raw_weights abc_normalize)
qed

lemma abc_idf_keys:
  "dom (map_of abc_idf) = {''a'', ''b'', ''c'', ''fever'', ''pain'', ''cough''}"
  by (auto simp: abc_idf_def dom_def split: if_splits)

text \<open>
  C5, as the claim states it: the vocabulary of the three rows would hold exactly the
  terms fever, pain, cough, and every document vector exactly two terms. In fact the
  name of a row is the first part of its text, so the vocabulary also holds a, b and c,
  and every vector has three entries.
\<close>

theorem abc_vocabulary_counterexample:
  "map_option (map fst) (vocab_pkl (snd (main env_0 abc_drugs no_artifacts))) =
     Some [''a'', ''fever'', ''pain'', ''b'', ''cough'', ''c''] \<and>
   map_option (map (length \<circ> snd)) (docs_pkl (snd (main env_0 abc_drugs no_artifacts))) =
     Some [3, 3, 3] \<and>
   row_text drug_A = ''a fever pain''"
proof -
  have "map fst (idf_table 3 (fst (document_frequencies remdups abc_docs))) =
        [''a'', ''fever'', ''pain'', ''b'', ''cough'', ''c'']"
    using idf_table_keys[OF document_frequencies_distinct[OF set_order_remdups], of 3 abc_docs]
    by (simp add: abc_df_keys)
  moreover have "set_iter env_0 = remdups" by (simp add: env_0_def)
  moreover have "row_text drug_A = ''a fever pain''" by code_simp
  ultimately show ?thesis
    using abc_run(2,3)[OF set_order_env_0, of no_artifacts] by simp
qed

lemma abc_unit_length:
  "(abc_name_weight / abc_norm) * (abc_name_weight / abc_norm)
   + (abc_term_weight / abc_norm) * (abc_term_weight / abc_norm)
   + (abc_term_weight / abc_norm) * (abc_term_weight / abc_norm) = 1"
proof -
  let ?S = "abc_name_weight * abc_name_weight + abc_term_weight * abc_term_weight
            + abc_term_weight * abc_term_weight"
  have S: "0 < ?S" using abc_norm_pos unfolding abc_norm_def by (simp only: real_sqrt_gt_0_iff)
  then have "abc_norm * abc_norm = ?S" unfolding abc_norm_def by simp
  then have "(abc_name_weight / abc_norm) * (abc_name_weight / abc_norm)
   + (abc_term_weight / abc_norm) * (abc_term_weight / abc_norm)
   + (abc_term_weight / abc_norm) * (abc_term_weight / abc_norm) = ?S / ?S"
    by (simp only: times_divide_times_eq add_divide_distrib)
  with S show ?thesis by simp
qed

text \<open>
  C5, amended. For the three rows A, B, C the corpus texts begin with the lowercased
  name, so: the vocabulary holds exactly the six terms a, b, c, fever, pain, cough;
  fever, pain and cough have document frequency 2 and weight \<open>1 + ln (4/3)\<close>, a, b and c
  have document frequency 1 and weight \<open>1 + ln 2\<close>; each document vector has exactly
  three terms, each weighted \<open>(1 + ln 2) * idf\<close> before normalization; after the L2
  normalization the two description terms of a document have the same weight
  \<open>(1 + ln 2) (1 + ln (4/3)) / n\<close> and the name term the weight \<open>(1 + ln 2)\<^sup>2 / n\<close>, where
  \<open>n\<close> is the norm of the three raw weights, and the squares of the three add up to one.
\<close>

theorem abc_pipeline:
  assumes "set_order (set_iter e)"
  shows "fst (main e abc_drugs fs) = Inr () \<and>
         corpus (build_corpus abc_drugs) = [''a fever pain'', ''b fever cough'', ''c cough pain''] \<and>
         map_option map_of (vocab_pkl (snd (main e abc_drugs fs))) = Some (map_of abc_idf) \<and>
         map_option (\<lambda>idf. set (map fst idf)) (vocab_pkl (snd (main e abc_drugs fs))) =
           Some {''a'', ''b'', ''c'', ''fever'', ''pain'', ''cough''} \<and>
         map_option (\<lambda>idf. distinct (map fst idf)) (vocab_pkl (snd (main e abc_drugs fs))) = Some True \<and>
         (\<forall>t\<in>{''fever'', ''pain'', ''cough''}.
            doc_freq abc_docs t = 2 \<and> map_of abc_idf t = Some (1 + ln (4 / 3))) \<and>
         (\<forall>t\<in>{''a'', ''b'', ''c''}.
            doc_freq abc_docs t = 1 \<and> map_of abc_idf t = Some (1 + ln 2)) \<and>
         map_option (\<lambda>idf. map (raw_weights idf)
             [[''a'', ''fever'', ''pain''], [''b'', ''fever'', ''cough''], [''c'', ''cough'', ''pain'']])
           (vocab_pkl (snd (main e abc_drugs fs))) =
           Some [[(''a'', (1 + ln 2) * (1 + ln 2)), (''fever'', (1 + ln 2) * (1 + ln (4 / 3))),
                  (''pain'', (1 + ln 2) * (1 + ln (4 / 3)))],
                 [(''b'', (1 + ln 2) * (1 + ln 2)), (''fever'', (1 + ln 2) * (1 + ln (4 / 3))),
                  (''cough'', (1 + ln 2) * (1 + ln (4 / 3)))],
                 [(''c'', (1 + ln 2) * (1 + ln 2)), (''cough'', (1 + ln 2) * (1 + ln (4 / 3))),
                  (''pain'', (1 + ln 2) * (1 + ln (4 / 3)))]] \<and>
         docs_pkl (snd (main e abc_drugs fs)) =
           Some [(''A'', [(''a'', abc_name_weight / abc_norm), (''fever'', abc_term_weight / abc_norm),
                          (''pain'', abc_term_weight / abc_norm)]),
                 (''B'', [(''b'', abc_name_weight / abc_norm), (''fever'', abc_term_weight / abc_norm),
                          (''cough'', abc_term_weight / abc_norm)]),
                 (''C'', [(''c'', abc_name_weight / abc_norm), (''cough'', abc_term_weight / abc_norm),
                          (''pain'', abc_term_weight / abc_norm)])] \<and>
         abc_name_weight = (1 + ln 2) * (1 + ln 2) \<and>
         abc_term_weight = (1 + ln 2) * (1 + ln (4 / 3)) \<and>
         abc_norm = sqrt (abc_name_weight * abc_name_weight + abc_term_weight * abc_term_weight
                          + abc_term_weight * abc_term_weight) \<and>
         0 < abc_norm \<and>
         (abc_name_weight / abc_norm) * (abc_name_weight / abc_norm)
           + (abc_term_weight / abc_norm) * (abc_term_weight / abc_norm)
           + (abc_term_weight / abc_norm) * (abc_term_weight / abc_norm) = 1"
proof -
  let ?idf = "idf_table 3 (fst (document_frequencies (set_iter e) abc_docs))"
  note v = abc_run(2)[OF assms, of fs]
  have m: "map_of ?idf = map_of abc_idf" by (rule abc_vocabulary[OF assms])
  have c: "corpus (build_corpus abc_drugs) = [''a fever pain'', ''b fever cough'', ''c cough pain'']"
    by (simp add: abc_corpus abc_docs_def)
  have k: "set (map fst ?idf) = {''a'', ''b'', ''c'', ''fever'', ''pain'', ''cough''}"
  proof -
    have "set (map fst ?idf) = dom (map_of ?idf)" by (simp add: dom_map_of_conv_image_fst)
    also have "\<dots> = dom (map_of abc_idf)" by (simp only: m)
    finally show ?thesis by (simp only: abc_idf_keys)
  qed
  have d: "distinct (map fst ?idf)" by (rule vocabulary_distinct[OF assms])
  have f2: "\<forall>t\<in>{''fever'', ''pain'', ''cough''}.
            doc_freq abc_docs t = 2 \<and> map_of abc_idf t = Some (1 + ln (4 / 3))"
    by (simp add: abc_doc_freq abc_idf_def)
  have f1: "\<forall>t\<in>{''a'', ''b'', ''c''}.
            doc_freq abc_docs t = 1 \<and> map_of abc_idf t = Some (1 + ln 2)"
    by (simp add: abc_doc_freq abc_idf_def)
  have r: "raw_weights ?idf toks = raw_weights abc_idf toks" for toks
    by (rule raw_weights_cong[OF m])
  have raw: "map (raw_weights ?idf)
             [[''a'', ''fever'', ''pain''], [''b'', ''fever'', ''cough''], [''c'', ''cough'', ''pain'']] =
           [[(''a'', (1 + ln 2) * (1 + ln 2)), (''fever'', (1 + ln 2) * (1 + ln (4 / 3))),
                  (''pain'', (1 + ln 2) * (1 + ln (4 / 3)))],
                 [(''b'', (1 + ln 2) * (1 + ln 2)), (''fever'', (1 + ln 2) * (1 + ln (4 / 3))),
                  (''cough'', (1 + ln 2) * (1 + ln (4 / 3)))],
                 [(''c'', (1 + ln 2) * (1 + ln 2)), (''cough'', (1 + ln 2) * (1 + ln (4 / 3))),
                  (''pain'', (1 + ln 2) * (1 + ln (4 / 3)))]]"
    by (simp add: r abc_raw_weights abc_name_weight_def abc_term_weight_def)
  have p3: "map_option map_of (vocab_pkl (snd (main e abc_drugs fs))) = Some (map_of abc_idf)"
    unfolding v option.map by (simp only: m)
  have p4: "map_option (\<lambda>idf. set (map fst idf)) (vocab_pkl (snd (main e abc_drugs fs))) =
           Some {''a'', ''b'', ''c'', ''fever'', ''pain'', ''cough''}"
    unfolding v option.map by (simp only: k)
  have p5: "map_option (\<lambda>idf. distinct (map fst idf)) (vocab_pkl (snd (main e abc_drugs fs))) = Some True"
    unfolding v option.map using d by simp
  have p8: "map_option (\<lambda>idf. map (raw_weights idf)
             [[''a'', ''fever'', ''pain''], [''b'', ''fever'', ''cough''], [''c'', ''cough'', ''pain'']])
           (vocab_pkl (snd (main e abc_drugs fs))) =
           Some [[(''a'', (1 + ln 2) * (1 + ln 2)), (''fever'', (1 + ln 2) * (1 + ln (4 / 3))),
                  (''pain'', (1 + ln 2) * (1 + ln (4 / 3)))],
                 [(''b'', (1 + ln 2) * (1 + ln 2)), (''fever'', (1 + ln 2) * (1 + ln (4 / 3))),
                  (''cough'', (1 + ln 2) * (1 + ln (4 / 3)))],
                 [(''c'', (1 + ln 2) * (1 + ln 2)), (''cough'', (1 + ln 2) * (1 + ln (4 / 3))),
                  (''pain'', (1 + ln 2) * (1 + ln (4 / 3)))]]"
    unfolding v option.map by (simp only: raw)
  show ?thesis
    by (intro conjI)
      (fact abc_run(1)[OF assms, of fs] c p3 p4 p5 f2 f1 p8 abc_run(3)[OF assms, of fs]
        abc_name_weight_def abc_term_weight_def abc_norm_def abc_norm_pos abc_unit_length)+
qed

theorem abc_pipeline_witness:
  "set_order (set_iter env_0) \<and>
   fst (main env_0 abc_drugs no_artifacts) = Inr () \<and>
   map_option map_of (vocab_pkl (snd (main env_0 abc_drugs no_artifacts))) = Some (map_of abc_idf) \<and>
   doc_freq abc_docs ''fever'' = 2 \<and> map_of abc_idf ''fever'' = Some (1 + ln (4 / 3)) \<and>
   doc_freq abc_docs ''a'' = 1 \<and> map_of abc_idf ''a'' = Some (1 + ln 2) \<and>
   docs_pkl (snd (main env_0 abc_drugs no_artifacts)) =
     Some [(''A'', [(''a'', abc_name_weight / abc_norm), (''fever'', abc_term_weight / abc_norm),
                    (''pain'', abc_term_weight / abc_norm)]),
           (''B'', [(''b'', abc_name_weight / abc_norm), (''fever'', abc_term_weight / abc_norm),
                    (''cough'', abc_term_weight / abc_norm)]),
           (''C'', [(''c'', abc_name_weight / abc_norm), (''cough'', abc_term_weight / abc_norm),
                    (''pain'', abc_term_weight / abc_norm)])]"
proof -
  note t = abc_pipeline [OF set_order_env_0, of no_artifacts]
  have a: "fst (main env_0 abc_drugs no_artifacts) = Inr ()" using t by blast
  have b: "map_option map_of (vocab_pkl (snd (main env_0 abc_drugs no_artifacts))) = Some (map_of abc_idf)"
    using t by blast
  have c: "doc_freq abc_docs ''fever'' = 2 \<and> map_of abc_idf ''fever'' = Some (1 + ln (4 / 3))"
    using t by blast
  have d: "doc_freq abc_docs ''a'' = 1 \<and> map_of abc_idf ''a'' = Some (1 + ln 2)"
    using t by blast
  have e: "docs_pkl (snd (main env_0 abc_drugs no_artifacts)) =
     Some [(''A'', [(''a'', abc_name_weight / abc_norm), (''fever'', abc_term_weight / abc_norm),
                    (''pain'', abc_term_weight / abc_norm)]),
           (''B'', [(''b'', abc_name_weight / abc_norm), (''fever'', abc_term_weight / abc_norm),
                    (''cough'', abc_term_weight / abc_norm)]),
           (''C'', [(''c'', abc_name_weight / abc_norm), (''cough'', abc_term_weight / abc_norm),
                    (''pain'', abc_term_weight / abc_norm)])]"
    using t by blast
  from a b c d e set_order_env_0 show ?thesis by blast
qed

section \<open>Two runs on the same rows\<close>

subsection \<open>The order of the vocabulary entries\<close>

lemma set_order_env_1: "set_order (set_iter env_1)"
  by (simp add: env_1_def env_0_def set_order_def)

lemma set_order_rev_remdups: "set_order (\<lambda>toks. rev (remdups toks))"
  by (simp add: set_order_def)

lemma abc_df_keys_rev:
  "map fst (fst (document_frequencies (\<lambda>toks. rev (remdups toks)) abc_docs)) =
     [''pain'', ''fever'', ''a'', ''cough'', ''b'', ''c'']"
  by code_simp

text \<open>
  C9, as the claim states it: two runs on the same rows would write identical vocabulary
  artifacts. The dictionary that is pickled lists its terms in the order in which the
  sets of tokens were iterated, and that order is not fixed by the program: on the rows
  A, B, C a run that iterates each set in the order of first occurrence and a run that
  iterates it in the opposite order write the same terms in different orders, so the
  two artifacts differ.
\<close>

theorem vocabulary_order_counterexample:
  "set_order (set_iter env_0) \<and> set_order (set_iter env_1) \<and>
   map_option (map fst) (vocab_pkl (snd (main env_0 abc_drugs no_artifacts))) =
     Some [''a'', ''fever'', ''pain'', ''b'', ''cough'', ''c''] \<and>
   map_option (map fst) (vocab_pkl (snd (main env_1 abc_drugs no_artifacts))) =
     Some [''pain'', ''fever'', ''a'', ''cough'', ''b'', ''c''] \<and>
   vocab_pkl (snd (main env_0 abc_drugs no_artifacts)) \<noteq>
     vocab_pkl (snd (main env_1 abc_drugs no_artifacts))"
proof -
  have i0: "set_iter env_0 = remdups" by (simp add: env_0_def)
  have i1: "set_iter env_1 = (\<lambda>toks. rev (remdups toks))" by (simp add: env_1_def env_0_def)
  have k0: "map_option (map fst) (vocab_pkl (snd (main env_0 abc_drugs no_artifacts))) =
     Some [''a'', ''fever'', ''pain'', ''b'', ''cough'', ''c'']"
    unfolding abc_run(2)[OF set_order_env_0] option.map i0
    using idf_table_keys[OF document_frequencies_distinct[OF set_order_remdups], of 3 abc_docs]
    by (simp add: abc_df_keys)
  have k1: "map_option (map fst) (vocab_pkl (snd (main env_1 abc_drugs no_artifacts))) =
     Some [''pain'', ''fever'', ''a'', ''cough'', ''b'', ''c'']"
    unfolding abc_run(2)[OF set_order_env_1] option.map i1
    using idf_table_keys[OF document_frequencies_distinct[OF set_order_rev_remdups], of 3 abc_docs]
    by (simp add: abc_df_keys_rev)
  have "vocab_pkl (snd (main env_0 abc_drugs no_artifacts)) \<noteq>
     vocab_pkl (snd (main env_1 abc_drugs no_artifacts))"
  proof
    assume "vocab_pkl (snd (main env_0 abc_drugs no_artifacts)) =
     vocab_pkl (snd (main env_1 abc_drugs no_artifacts))"
    with k0 k1 show False by simp
  qed
  with k0 k1 set_order_env_0 set_order_env_1 show ?thesis by blast
qed

subsection \<open>What does not depend on the set iteration order and on the clock\<close>

lemma vocabulary_map_of_eq:
  assumes "set_order iter" and "set_order iter'"
  shows "map_of (idf_table N (fst (document_frequencies iter docs)))
       = map_of (idf_table N (fst (document_frequencies iter' docs)))"
  by (rule ext) (simp add: vocabulary_lookup[OF assms(1)] vocabulary_lookup[OF assms(2)])

lemma vocabulary_set_eq:
  assumes "set_order iter" and "set_order iter'"
  shows "set (idf_table N (fst (document_frequencies iter docs)))
       = set (idf_table N (fst (document_frequencies iter' docs)))"
  using vocabulary_map_of_eq[OF assms, of N docs]
    vocabulary_distinct[OF assms(1), of N docs] vocabulary_distinct[OF assms(2), of N docs]
  by (simp add: map_of_inject_set)

lemma vocabulary_length_eq:
  assumes "set_order iter" and "set_order iter'"
  shows "length (idf_table N (fst (document_frequencies iter docs)))
       = length (idf_table N (fst (document_frequencies iter' docs)))"
proof -
  have d: "distinct (idf_table N (fst (document_frequencies i docs)))" if "set_order i" for i
    using vocabulary_distinct[OF that, of N docs] by (rule distinct_map[THEN iffD1, THEN conjunct1])
  from vocabulary_set_eq[OF assms, of N docs]
  have "card (set (idf_table N (fst (document_frequencies iter docs))))
      = card (set (idf_table N (fst (document_frequencies iter' docs))))" by simp
  then show ?thesis by (simp add: distinct_card d[OF assms(1)] d[OF assms(2)])
qed

text \<open>
  C9, amended. Two runs on the same rows in the same order, whatever the order in which
  each of them iterates its sets of tokens and whatever its clock shows, end the same
  way and write the same list of document vectors, vocabularies that are equal as
  dictionaries (the same terms with the same weights), and metadata that differ in
  \<^verbatim>\<open>built_at\<close> only. The position of an entry inside the vocabulary dictionary follows
  the iteration order of the sets and may differ between the runs.
\<close>

theorem run_deterministic:
  assumes "set_order (set_iter e)" and "set_order iter'"
  shows "fst (main e drugs fs) = fst (main (e\<lparr>set_iter := iter', utcnow := now'\<rparr>) drugs fs) \<and>
         docs_pkl (snd (main e drugs fs)) =
           docs_pkl (snd (main (e\<lparr>set_iter := iter', utcnow := now'\<rparr>) drugs fs)) \<and>
         map_option map_of (vocab_pkl (snd (main e drugs fs))) =
           map_option map_of (vocab_pkl (snd (main (e\<lparr>set_iter := iter', utcnow := now'\<rparr>) drugs fs))) \<and>
         map_option set (vocab_pkl (snd (main e drugs fs))) =
           map_option set (vocab_pkl (snd (main (e\<lparr>set_iter := iter', utcnow := now'\<rparr>) drugs fs))) \<and>
         map_option (\<lambda>m. m\<lparr>built_at := []\<rparr>) (meta_json (snd (main e drugs fs))) =
           map_option (\<lambda>m. m\<lparr>built_at := []\<rparr>)
             (meta_json (snd (main (e\<lparr>set_iter := iter', utcnow := now'\<rparr>) drugs fs)))"
proof (cases "corpus (build_corpus drugs) = []")
  case True
  show ?thesis
  proof (cases "drugs = []")
    case True
    then show ?thesis by (simp add: main_no_rows)
  next
    case False
    from main_empty_corpus[OF False True] show ?thesis by simp
  qed
next
  case False
  let ?docs = "corpus (build_corpus drugs)"
  let ?N = "length ?docs"
  note eqs = vocabulary_map_of_eq[OF assms, of ?N ?docs] vocabulary_set_eq[OF assms, of ?N ?docs]
    vocabulary_length_eq[OF assms, of ?N ?docs]
  have toks: "snd (document_frequencies (set_iter e) ?docs) = snd (document_frequencies iter' ?docs)"
    by (simp add: document_frequencies_tokens[OF assms(1)] document_frequencies_tokens[OF assms(2)])
  have vecs: "build_tfidf (idf_table ?N (fst (document_frequencies (set_iter e) ?docs)))
                (snd (document_frequencies (set_iter e) ?docs)) (names (build_corpus drugs))
            = build_tfidf (idf_table ?N (fst (document_frequencies iter' ?docs)))
                (snd (document_frequencies iter' ?docs)) (names (build_corpus drugs))"
    unfolding toks by (rule build_tfidf_cong[OF eqs(1)])
  show ?thesis
    unfolding main_success[OF False]
    using eqs vecs by (simp add: Let_def)
qed

theorem run_deterministic_witness:
  "set_order (set_iter env_0) \<and> set_order (\<lambda>toks. rev (remdups toks)) \<and>
   fst (main env_0 [drug_A, drug_B, drug_C] no_artifacts) =
     fst (main env_1 [drug_A, drug_B, drug_C] no_artifacts) \<and>
   docs_pkl (snd (main env_0 [drug_A, drug_B, drug_C] no_artifacts)) =
     docs_pkl (snd (main env_1 [drug_A, drug_B, drug_C] no_artifacts)) \<and>
   map_option map_of (vocab_pkl (snd (main env_0 [drug_A, drug_B, drug_C] no_artifacts))) =
     map_option map_of (vocab_pkl (snd (main env_1 [drug_A, drug_B, drug_C] no_artifacts)))"
  using run_deterministic [OF set_order_env_0 set_order_rev_remdups,
      of "[drug_A, drug_B, drug_C]" no_artifacts "''2025-06-30T12:00:00''"]
    set_order_env_0 set_order_rev_remdups
  by (simp add: env_1_def)

end
